theory Spec2Isabelle
  imports Main
begin

section \<open>Strings of the content filter\<close>

text \<open>
  A JavaScript string is a sequence of UTF-16 code units; \<open>length\<close> counts code units and
  \<open>includes\<close> compares code units. The banned words are Chinese, so the texts are kept as
  lists of code-unit numbers. \<open>ascii\<close> writes a Basic Latin literal.
\<close>

type_synonym jsstring = "nat list"

definition ascii :: "string \<Rightarrow> jsstring" where
  "ascii s = map of_char s"

text \<open>
  \<open>String.prototype.toLowerCase\<close> is a built-in of the language. It is modelled on the
  Basic Latin capitals \<open>A\<close> to \<open>Z\<close> (65 to 90), which move to 97 to 122; every other code
  unit is kept. Digits and CJK ideographs, the only characters of the two word tables, have
  no case.
\<close>

definition lowerUnit :: "nat \<Rightarrow> nat" where
  "lowerUnit c = (if 65 \<le> c \<and> c \<le> 90 then c + 32 else c)"

definition toLowerCase :: "jsstring \<Rightarrow> jsstring" where
  "toLowerCase s = map lowerUnit s"

fun startsWith :: "jsstring \<Rightarrow> jsstring \<Rightarrow> bool" where
  "startsWith t [] = True"
| "startsWith [] (c # w) = False"
| "startsWith (d # t) (c # w) = (d = c \<and> startsWith t w)"

text \<open>
  \<open>includes_str t w\<close> is the method \<open>includes\<close> of strings: the word \<open>w\<close> occurs in
  \<open>t\<close> as a run of adjacent code units.
\<close>

fun includes_str :: "jsstring \<Rightarrow> jsstring \<Rightarrow> bool" where
  "includes_str [] w = (w = [])"
| "includes_str (d # t) w = (startsWith (d # t) w \<or> includes_str t w)"

text \<open>\<open>Array.prototype.join\<close> with a separator.\<close>

fun join :: "jsstring \<Rightarrow> jsstring list \<Rightarrow> jsstring" where
  "join sep [] = []"
| "join sep [w] = w"
| "join sep (w # v # ws) = w @ sep @ join sep (v # ws)"

section \<open>The word tables of the content filter\<close>

text \<open>
  The two constant arrays of the content-filter module, word by word in the order of the
  source. The first word of \<open>sensitiveWords\<close>, \<open>[26432, 27515]\<close>, is U+6740 U+6B7B
  ("to kill").
\<close>

definition sensitiveWords :: "jsstring list" where
  "sensitiveWords = [
    [26432, 27515], [26432, 23475], [35851, 26432], [26292, 21147], [25171, 27515],
    [24324, 27515], [24178, 25481], [28781, 25481], [34880, 33125], [27531, 24525],
    [34384, 24453], [25240, 30952], [37239, 21009], [23648, 26432], [30733, 27515],
    [21050, 27515], [26538, 26432], [29190, 28856], [28856, 24377], [24656, 24598],
    [34989, 20987], [25915, 20987], [20260, 23475], [27585, 28781], [30772, 22351],
    [20167, 26432], [25253, 22797], [23041, 32961], [24656, 21523], [33394, 24773],
    [28139, 31229], [40644, 33394], [35064, 20307], [24615, 20132], [20570, 29233],
    [24378, 22904], [29477, 20149], [21334, 28139], [23254, 23100], [25588, 20132],
    [21253, 20859], [19968, 22812, 24773], [32422, 28846], [24320, 25151],
    [27861, 36718, 21151], [20845, 22235], [22825, 23433, 38376], [36798, 36182],
    [34255, 29420], [21488, 29420], [30086, 29420], [28207, 29420], [21453, 25919, 24220],
    [39072, 35206], [27665, 36816], [24322, 35758], [32500, 26435], [25239, 35758],
    [28216, 34892], [31034, 23041], [36172, 21338], [36172, 22330], [21338, 24425],
    [24425, 31080], [32769, 34382, 26426], [30334, 23478, 20048], [50, 49, 28857],
    [24503, 24030, 25169, 20811], [32593, 32476, 36172, 21338], [22320, 19979, 36172, 22330],
    [36172, 36164], [36172, 20538], [27602, 21697], [22823, 40635], [28023, 27931, 22240],
    [20912, 27602], [25671, 22836, 20024], [21487, 21345, 22240], [40486, 29255],
    [21560, 27602], [36137, 27602], [21046, 27602], [27602, 36137], [27602, 30270],
    [35784, 39575], [39575, 38065], [20256, 38144], [38750, 27861, 38598, 36164],
    [24222, 27663, 39575, 23616], [32593, 32476, 35784, 39575], [30005, 20449, 35784, 39575],
    [21047, 21333], [27927, 38065], [40657, 38065], [20551, 24065], [33258, 26432],
    [36339, 27004], [21106, 33109], [19978, 21514], [26381, 27602], [36731, 29983],
    [23547, 27515], [27515, 21435], [20167, 24680], [27495, 35270],
    [31181, 26063, 20027, 20041], [32435, 31929], [24076, 29305, 21202], [21453, 20154, 31867]
   ]"

definition politicalSensitiveWords :: "jsstring list" where
  "politicalSensitiveWords = [
    [20064, 36817, 24179], [26446, 20811, 24378], [29579, 23696, 23665], [32993, 38182, 28059],
    [27743, 27901, 27665], [37011, 23567, 24179], [27611, 27901, 19996], [20013, 21335, 28023],
    [25919, 27835, 23616], [20154, 22823], [25919, 21327], [22269, 21153, 38498],
    [20013, 23459, 37096], [32479, 25112, 37096], [20849, 20135, 20826], [22269, 27665, 20826],
    [27665, 36827, 20826], [20844, 27665, 20826], [27665, 20027, 20826], [33258, 30001, 20826],
    [38761, 21629], [36215, 20041], [36896, 21453], [25512, 32763], [25919, 21464],
    [20891, 20107, 25919, 21464], [29420, 35009], [19987, 21046], [27665, 20027, 21270],
    [33258, 30001, 21270], [25919, 27835, 25913, 38761], [20307, 21046, 25913, 38761],
    [19968, 20826, 19987, 25919]
   ]"

section \<open>checkSensitiveContent\<close>

record check_result =
  isValid :: bool
  foundWords :: "jsstring list"
  message :: jsstring

text \<open>
  The text argument is \<open>None\<close> when the caller passed something that is not a string
  (\<open>typeof text !== 'string'\<close>); the empty string is falsy and takes the same early return.
  \<open>strictMode\<close> is \<open>None\<close> when the argument is omitted, and then defaults to true.
  The message of a rejection starts with the literal
  \<open>[20869, 23481, 21253, 21547, 19981, 24403, 35789, 27719, 58, 32]\<close>
  ("content contains improper words: ") and lists the found words joined by \<open>", "\<close>.
\<close>

definition found_prefix :: jsstring where
  "found_prefix = [20869, 23481, 21253, 21547, 19981, 24403, 35789, 27719, 58, 32]"

definition checkSensitiveContent :: "jsstring option \<Rightarrow> bool option \<Rightarrow> check_result" where
  "checkSensitiveContent text strictMode =
     (case text of
        None \<Rightarrow> \<lparr>isValid = True, foundWords = [], message = []\<rparr>
      | Some t \<Rightarrow>
          if t = [] then \<lparr>isValid = True, foundWords = [], message = []\<rparr>
          else
            let textLower = toLowerCase t;
                strict = (case strictMode of None \<Rightarrow> True | Some b \<Rightarrow> b);
                found = filter (\<lambda>word. includes_str textLower (toLowerCase word)) sensitiveWords
                      @ (if strict
                         then filter (\<lambda>word. includes_str textLower (toLowerCase word))
                                politicalSensitiveWords
                         else []);
                valid = (found = [])
            in \<lparr>isValid = valid, foundWords = found,
                message = (if valid then [] else found_prefix @ join (ascii '', '') found)\<rparr>)"

section \<open>Requests, responses and the validation of request bodies\<close>

text \<open>
  In tokens and request bodies an identifier travels as a text. The comment routes are
  modelled on these texts: a comment, a blog or a user is looked up by the text as it is,
  two identifiers are the same when their texts are, and the driver's refusal of a text
  that is no identifier is not shown there. The user routes (follow, unfollow, info, me)
  show the driver's cast, see the section on store identifiers. A handler runs after the
  token middleware has accepted the bearer token; it sees the decoded payload. No login
  route puts an \<open>_id\<close> field into the payload. The roles are \<open>'admin'\<close> and
  \<open>'user'\<close>.
\<close>

type_synonym oid = jsstring

datatype role = Admin | User

record jwt_payload =
  userId :: oid
  jwt_role :: role

text \<open>
  A parsed request body: its own keys with their values, in order. Every field the routes
  validate is a string field, so a value is a string or something else (number, boolean,
  null, array, object).
\<close>

datatype jsvalue = JString jsstring | JOther

type_synonym body = "(string \<times> jsvalue) list"

datatype joi_code = AnyRequired | StringBase | StringEmpty | ObjectUnknown

text \<open>
  A message of a response is a literal of the source, or the validation library's own
  text for an error code at a key (\<open>error.details[0].message\<close>).
\<close>

datatype message = Text jsstring | JoiText joi_code string

definition joi_message :: "(joi_code \<times> jsstring) list \<Rightarrow> joi_code \<Rightarrow> string \<Rightarrow> message" where
  "joi_message custom code k =
     (case map_of custom code of Some t \<Rightarrow> Text t | None \<Rightarrow> JoiText code k)"

text \<open>
  \<open>Joi.string().required()\<close> at key \<open>k\<close>, with the custom messages of the schema:
  the key must be present, a string, and not the empty string.
\<close>

definition joi_required :: "body \<Rightarrow> string \<Rightarrow> (joi_code \<times> jsstring) list \<Rightarrow> message + jsstring" where
  "joi_required b k custom =
     (case map_of b k of
        None \<Rightarrow> Inl (joi_message custom AnyRequired k)
      | Some JOther \<Rightarrow> Inl (joi_message custom StringBase k)
      | Some (JString v) \<Rightarrow>
          if v = [] then Inl (joi_message custom StringEmpty k) else Inr v)"

text \<open>\<open>Joi.string().optional()\<close>: the key may be absent.\<close>

definition joi_optional :: "body \<Rightarrow> string \<Rightarrow> message + jsstring option" where
  "joi_optional b k =
     (case map_of b k of
        None \<Rightarrow> Inr None
      | Some JOther \<Rightarrow> Inl (JoiText StringBase k)
      | Some (JString v) \<Rightarrow>
          if v = [] then Inl (JoiText StringEmpty k) else Inr (Some v))"

text \<open>An object schema rejects a key it does not declare.\<close>

definition joi_unknown :: "body \<Rightarrow> string list \<Rightarrow> message option" where
  "joi_unknown b ks =
     (case filter (\<lambda>kv. fst kv \<notin> set ks) b of
        [] \<Rightarrow> None
      | kv # _ \<Rightarrow> Some (JoiText ObjectUnknown (fst kv)))"

record 'd response =
  status :: nat
  success :: bool
  body_message :: "message option"
  data :: "'d option"

section \<open>Store identifiers\<close>

text \<open>
  A store identifier is twelve bytes, written as 24 hexadecimal digits. The store's driver
  casts a text to an identifier when a query or an update names a document or a value of
  an identifier field: a text of 24 hexadecimal digits, in either case, is accepted, any
  other text makes the cast throw. The text of an identifier (\<open>toString\<close>) is in lower
  case. An array of identifiers compares a text with the texts of its elements
  (\<open>includes\<close>), without a cast. The cast is the driver's, not code of the repository.
\<close>

datatype hex = H0 | H1 | H2 | H3 | H4 | H5 | H6 | H7 | H8 | H9 | Ha | Hb | Hc | Hd | He | Hf

type_synonym objectid = "hex list"

fun hexchar :: "hex \<Rightarrow> nat" where
  "hexchar H0 = 48"
| "hexchar H1 = 49"
| "hexchar H2 = 50"
| "hexchar H3 = 51"
| "hexchar H4 = 52"
| "hexchar H5 = 53"
| "hexchar H6 = 54"
| "hexchar H7 = 55"
| "hexchar H8 = 56"
| "hexchar H9 = 57"
| "hexchar Ha = 97"
| "hexchar Hb = 98"
| "hexchar Hc = 99"
| "hexchar Hd = 100"
| "hexchar He = 101"
| "hexchar Hf = 102"

definition hexval :: "nat \<Rightarrow> hex option" where
  "hexval c =
     (if 48 \<le> c \<and> c \<le> 57 then Some ([H0, H1, H2, H3, H4, H5, H6, H7, H8, H9] ! (c - 48))
      else if 97 \<le> c \<and> c \<le> 102 then Some ([Ha, Hb, Hc, Hd, He, Hf] ! (c - 97))
      else if 65 \<le> c \<and> c \<le> 70 then Some ([Ha, Hb, Hc, Hd, He, Hf] ! (c - 65))
      else None)"

fun hexvals :: "jsstring \<Rightarrow> hex list option" where
  "hexvals [] = Some []"
| "hexvals (c # cs) =
     (case hexval c of
        None \<Rightarrow> None
      | Some d \<Rightarrow> (case hexvals cs of None \<Rightarrow> None | Some ds \<Rightarrow> Some (d # ds)))"

definition toString :: "objectid \<Rightarrow> jsstring" where
  "toString i = map hexchar i"

text \<open>\<open>castObjectId\<close>: \<open>None\<close> when the cast throws.\<close>

definition castObjectId :: "jsstring \<Rightarrow> objectid option" where
  "castObjectId t = (if length t = 24 then hexvals t else None)"

section \<open>The collections\<close>

text \<open>
  The fields the user schema declares, and \<open>updatedAt\<close>, which the schema's option
  \<open>timestamps: true\<close> adds and which the store sets to the time of the write on every
  update of the document. Dates are readings of a clock. The two arrays hold identifiers.
\<close>

record user =
  username :: jsstring
  email :: jsstring
  password :: jsstring
  role :: role
  avatar :: "jsstring option"
  createdAt :: nat
  isActive :: bool
  lastLogin :: "nat option"
  following :: "objectid list"
  followers :: "objectid list"
  followersCount :: int
  followingCount :: int
  updatedAt :: nat

text \<open>
  Modelled from the spec: the blog schema (\<open>models/blogs\<close>) is not among the sources. The
  spec gives a blog an owning user and a title; these are the two fields the comment
  routes read.
\<close>

record blog =
  blog_user :: oid
  blog_title :: jsstring

text \<open>
  Modelled from the spec: the comment schema (\<open>models/comments\<close>) is not among the
  sources. The spec gives a comment its content, author, blog, \<open>parentId\<close> (null for a
  top-level comment), \<open>replyTo\<close>, the two user-name snapshots, the likes and the
  \<open>likeCount\<close>. The routes treat \<open>likes\<close> as an array.
\<close>

record comment =
  comment_id :: oid
  content :: jsstring
  comment_user :: oid
  comment_blog :: oid
  parentId :: "oid option"
  replyTo :: "oid option"
  fromUserName :: "jsstring option"
  toUserName :: "jsstring option"
  likes :: "oid list"
  likeCount :: int

datatype ntype = Comment_type | Reply_type | Like_type | Follow_type | System_type

datatype priority = Low | Normal | High | Urgent

text \<open>The fields of the notification schema that a creating route sets or defaults.\<close>

record notification =
  recipient :: oid
  sender :: oid
  ntype :: ntype
  title :: jsstring
  n_content :: jsstring
  relatedBlog :: "oid option"
  relatedComment :: "oid option"
  isRead :: bool
  priority :: priority

text \<open>
  The store: users and blogs by identifier, comments and notifications as collections in
  insertion order.
\<close>

record store =
  users :: "oid \<rightharpoonup> user"
  blogs :: "oid \<rightharpoonup> blog"
  comments :: "comment list"
  notifications :: "notification list"

section \<open>The follow routes\<close>

text \<open>
  Literals of the follow routes: "cannot follow yourself", "user does not exist",
  "already following this user", "followed", "follow failed", "not following this user",
  "unfollowed", "unfollow failed", "user id must not be empty", "could not get the follow
  information".
\<close>

definition msg_cannot_follow_self :: jsstring where
  "msg_cannot_follow_self = [19981, 33021, 20851, 27880, 33258, 24049]"

definition msg_user_not_found :: jsstring where
  "msg_user_not_found = [29992, 25143, 19981, 23384, 22312]"

definition msg_already_following :: jsstring where
  "msg_already_following = [24050, 32463, 20851, 27880, 35813, 29992, 25143]"

definition msg_follow_ok :: jsstring where
  "msg_follow_ok = [20851, 27880, 25104, 21151]"

definition msg_follow_failed :: jsstring where
  "msg_follow_failed = [20851, 27880, 22833, 36133]"

definition msg_not_following :: jsstring where
  "msg_not_following = [26410, 20851, 27880, 35813, 29992, 25143]"

definition msg_unfollow_ok :: jsstring where
  "msg_unfollow_ok = [21462, 28040, 20851, 27880, 25104, 21151]"

definition msg_unfollow_failed :: jsstring where
  "msg_unfollow_failed = [21462, 28040, 20851, 27880, 22833, 36133]"

definition msg_user_id_empty :: jsstring where
  "msg_user_id_empty = [29992, 25143, 73, 68, 19981, 33021, 20026, 31354]"

definition msg_info_failed :: jsstring where
  "msg_info_failed = [33719, 21462, 20851, 27880, 20449, 24687, 22833, 36133]"

definition respond :: "nat \<Rightarrow> bool \<Rightarrow> message \<Rightarrow> 'd response" where
  "respond st ok m = \<lparr>status = st, success = ok, body_message = Some m, data = None\<rparr>"

definition validate_userId_body :: "body \<Rightarrow> message + jsstring" where
  "validate_userId_body b =
     (case joi_required b ''userId'' [] of
        Inl m \<Rightarrow> Inl m
      | Inr uid \<Rightarrow>
          (case joi_unknown b [''userId''] of Some m \<Rightarrow> Inl m | None \<Rightarrow> Inr uid))"

text \<open>
  The user collection is keyed by the text of the identifier. \<open>findByIdAndUpdate\<close> with
  \<open>$push\<close> appends the identifier to the array of the document and stamps the document
  with the time of the write; it does nothing when there is no such document. \<open>$pull\<close>
  removes every element equal to the identifier.
\<close>

definition push_following :: "nat \<Rightarrow> store \<Rightarrow> objectid \<Rightarrow> objectid \<Rightarrow> store" where
  "push_following now s i x =
     (case users s (toString i) of
        None \<Rightarrow> s
      | Some u \<Rightarrow>
          s\<lparr>users := (users s)(toString i \<mapsto>
                 u\<lparr>following := following u @ [x], updatedAt := now\<rparr>)\<rparr>)"

definition push_followers :: "nat \<Rightarrow> store \<Rightarrow> objectid \<Rightarrow> objectid \<Rightarrow> store" where
  "push_followers now s i x =
     (case users s (toString i) of
        None \<Rightarrow> s
      | Some u \<Rightarrow>
          s\<lparr>users := (users s)(toString i \<mapsto>
                 u\<lparr>followers := followers u @ [x], updatedAt := now\<rparr>)\<rparr>)"

definition pull_following :: "nat \<Rightarrow> store \<Rightarrow> objectid \<Rightarrow> objectid \<Rightarrow> store" where
  "pull_following now s i x =
     (case users s (toString i) of
        None \<Rightarrow> s
      | Some u \<Rightarrow>
          s\<lparr>users := (users s)(toString i \<mapsto>
                 u\<lparr>following := filter (\<lambda>y. y \<noteq> x) (following u), updatedAt := now\<rparr>)\<rparr>)"

definition pull_followers :: "nat \<Rightarrow> store \<Rightarrow> objectid \<Rightarrow> objectid \<Rightarrow> store" where
  "pull_followers now s i x =
     (case users s (toString i) of
        None \<Rightarrow> s
      | Some u \<Rightarrow>
          s\<lparr>users := (users s)(toString i \<mapsto>
                 u\<lparr>followers := filter (\<lambda>y. y \<noteq> x) (followers u), updatedAt := now\<rparr>)\<rparr>)"

text \<open>
  \<open>POST /api/follow/follow\<close>, at the clock reading \<open>now\<close>. The checks in the order of
  the source: body validation; the self-follow test, which compares the text of the body
  with the text of the token; the target's document, found under the identifier the
  body's text casts to; the token user's document; the already-following test, which
  compares the text of the body with the texts of the identifiers in the array; then the
  two updates, which cast both texts. A cast that throws and a token user without a
  document (reading \<open>currentUser.following\<close> throws) reach the handler's \<open>catch\<close>, which
  answers 500.
\<close>

definition follow :: "nat \<Rightarrow> store \<Rightarrow> jwt_payload \<Rightarrow> body \<Rightarrow> unit response \<times> store" where
  "follow now s tok b =
     (case validate_userId_body b of
        Inl m \<Rightarrow> (respond 400 False m, s)
      | Inr uid \<Rightarrow>
          if uid = userId tok then (respond 400 False (Text msg_cannot_follow_self), s)
          else
            (case castObjectId uid of
               None \<Rightarrow> (respond 500 False (Text msg_follow_failed), s)
             | Some target \<Rightarrow>
                 (case users s (toString target) of
                    None \<Rightarrow> (respond 400 False (Text msg_user_not_found), s)
                  | Some userToFollow \<Rightarrow>
                      (case castObjectId (userId tok) of
                         None \<Rightarrow> (respond 500 False (Text msg_follow_failed), s)
                       | Some actor \<Rightarrow>
                           (case users s (toString actor) of
                              None \<Rightarrow> (respond 500 False (Text msg_follow_failed), s)
                            | Some currentUser \<Rightarrow>
                                if uid \<in> set (map toString (following currentUser))
                                then (respond 400 False (Text msg_already_following), s)
                                else (respond 200 True (Text msg_follow_ok),
                                      push_followers now
                                        (push_following now s actor target) target actor))))))"

text \<open>\<open>POST /api/follow/unfollow\<close>, at the clock reading \<open>now\<close>.\<close>

definition unfollow :: "nat \<Rightarrow> store \<Rightarrow> jwt_payload \<Rightarrow> body \<Rightarrow> unit response \<times> store" where
  "unfollow now s tok b =
     (case validate_userId_body b of
        Inl m \<Rightarrow> (respond 400 False m, s)
      | Inr uid \<Rightarrow>
          (case castObjectId uid of
             None \<Rightarrow> (respond 500 False (Text msg_unfollow_failed), s)
           | Some target \<Rightarrow>
               (case users s (toString target) of
                  None \<Rightarrow> (respond 400 False (Text msg_user_not_found), s)
                | Some userToUnfollow \<Rightarrow>
                    (case castObjectId (userId tok) of
                       None \<Rightarrow> (respond 500 False (Text msg_unfollow_failed), s)
                     | Some actor \<Rightarrow>
                         (case users s (toString actor) of
                            None \<Rightarrow> (respond 500 False (Text msg_unfollow_failed), s)
                          | Some currentUser \<Rightarrow>
                              if uid \<notin> set (map toString (following currentUser))
                              then (respond 400 False (Text msg_not_following), s)
                              else (respond 200 True (Text msg_unfollow_ok),
                                    pull_followers now
                                      (pull_following now s actor target) target actor))))))"

text \<open>
  \<open>GET /api/follow/info\<close>. \<open>populate\<close> replaces each identifier of an array by the
  selected fields of its document and drops an identifier that has no document. The
  two counts are the lengths of the populated arrays.
\<close>

record follow_entry =
  entry_id :: objectid
  entry_username :: jsstring
  entry_avatar :: "jsstring option"
  isFollowing :: bool

record follow_info =
  info_followingCount :: nat
  info_followersCount :: nat
  info_following :: "follow_entry list"
  info_followers :: "follow_entry list"
  info_isFollowing :: bool

definition populate :: "store \<Rightarrow> objectid list \<Rightarrow> (objectid \<times> user) list" where
  "populate s ids =
     List.map_filter
       (\<lambda>i. case users s (toString i) of None \<Rightarrow> None | Some u \<Rightarrow> Some (i, u)) ids"

definition info :: "store \<Rightarrow> jwt_payload \<Rightarrow> follow_info response" where
  "info s tok =
     (if userId tok = [] then respond 400 False (Text msg_user_id_empty)
      else
        (case castObjectId (userId tok) of
           None \<Rightarrow> respond 500 False (Text msg_info_failed)
         | Some i \<Rightarrow>
             (case users s (toString i) of
                None \<Rightarrow> respond 404 False (Text msg_user_not_found)
              | Some u \<Rightarrow>
                  let fing = populate s (following u);
                      fers = populate s (followers u);
                      followingWithStatus =
                        map (\<lambda>p. \<lparr>entry_id = fst p, entry_username = username (snd p),
                                   entry_avatar = avatar (snd p), isFollowing = True\<rparr>) fing;
                      followersWithStatus =
                        map (\<lambda>p. \<lparr>entry_id = fst p, entry_username = username (snd p),
                                   entry_avatar = avatar (snd p),
                                   isFollowing =
                                     (toString (fst p) \<in> set (map (toString \<circ> fst) fing))\<rparr>) fers
                  in \<lparr>status = 200, success = True, body_message = None,
                      data = Some \<lparr>info_followingCount = length fing,
                                    info_followersCount = length fers,
                                    info_following = followingWithStatus,
                                    info_followers = followersWithStatus,
                                    info_isFollowing =
                                      (userId tok \<in> set (map (toString \<circ> fst) fers))\<rparr>\<rparr>)))"

section \<open>The profile query of the auth routes\<close>

text \<open>
  \<open>GET /api/auth/me\<close>, at the clock reading \<open>now\<close>, reads the bearer token itself: the
  header may be missing, the token may fail verification, or it verifies to a payload. A
  failed verification and a cast that throws reach the \<open>catch\<close>, which answers 400. The
  route counts the two arrays and, when a stored count differs, writes both stored
  counts. The returned user carries the counts just computed; the password is not
  selected, which the model shows as the empty text. Literals: "no token given",
  "invalid token".
\<close>

datatype authorization = NoToken | BadToken | Verified jwt_payload

definition msg_no_token :: jsstring where
  "msg_no_token = [26410, 25552, 20379, 35748, 35777, 20196, 29260]"

definition msg_bad_token :: jsstring where
  "msg_bad_token = [26080, 25928, 30340, 35748, 35777, 20196, 29260]"

definition me :: "nat \<Rightarrow> store \<Rightarrow> authorization \<Rightarrow> user response \<times> store" where
  "me now s a =
     (case a of
        NoToken \<Rightarrow> (respond 400 False (Text msg_no_token), s)
      | BadToken \<Rightarrow> (respond 400 False (Text msg_bad_token), s)
      | Verified decoded \<Rightarrow>
          (case castObjectId (userId decoded) of
             None \<Rightarrow> (respond 400 False (Text msg_bad_token), s)
           | Some i \<Rightarrow>
               (case users s (toString i) of
                  None \<Rightarrow> (respond 400 False (Text msg_user_not_found), s)
                | Some u \<Rightarrow>
                    let fersCount = int (length (followers u));
                        fingCount = int (length (following u));
                        s' = (if followersCount u \<noteq> fersCount \<or> followingCount u \<noteq> fingCount
                              then s\<lparr>users := (users s)(toString i \<mapsto>
                                       u\<lparr>followersCount := fersCount,
                                          followingCount := fingCount,
                                          updatedAt := now\<rparr>)\<rparr>
                              else s)
                    in (\<lparr>status = 200, success = True, body_message = None,
                         data = Some (u\<lparr>password := [], followersCount := fersCount,
                                        followingCount := fingCount\<rparr>)\<rparr>, s'))))"

section \<open>validateContent\<close>

text \<open>
  The options object: a property that is left out takes its default (1, 10000, false,
  true). The result object has \<open>isValid\<close> and \<open>message\<close>, and \<open>foundWords\<close> only on a
  rejection by the word check; the model shows a missing \<open>foundWords\<close> as the empty list.
  Literals: "content must not be empty", "content length must not be below", "content
  length must not exceed", "characters", "content contains improper words, please revise
  and retry", "content accepted".
\<close>

record options =
  minLength :: "nat option"
  maxLength :: "nat option"
  allowEmpty :: "bool option"
  strictMode :: "bool option"

definition msg_empty :: jsstring where
  "msg_empty = [20869, 23481, 19981, 33021, 20026, 31354]"

definition msg_too_short :: jsstring where
  "msg_too_short = [20869, 23481, 38271, 24230, 19981, 33021, 23569, 20110]"

definition msg_too_long :: jsstring where
  "msg_too_long = [20869, 23481, 38271, 24230, 19981, 33021, 36229, 36807]"

definition msg_chars :: jsstring where
  "msg_chars = [20010, 23383, 31526]"

definition msg_improper :: jsstring where
  "msg_improper = [20869, 23481, 21253, 21547, 19981, 24403, 35789, 27719, 65292, 35831,
                   20462, 25913, 21518, 37325, 35797]"

definition msg_valid :: jsstring where
  "msg_valid = [20869, 23481, 39564, 35777, 36890, 36807]"

text \<open>The decimal digits of a number, as a template literal prints it.\<close>

fun decimal :: "nat \<Rightarrow> jsstring" where
  "decimal n = (if n < 10 then [48 + n] else decimal (n div 10) @ [48 + n mod 10])"

declare decimal.simps [simp del]

text \<open>The code units that \<open>trim\<close> removes: white space and line terminators.\<close>

definition isWhiteSpace :: "nat \<Rightarrow> bool" where
  "isWhiteSpace c =
     (c \<in> {9, 10, 11, 12, 13, 32, 160, 5760, 8232, 8233, 8239, 8287, 12288, 65279}
      \<or> (8192 \<le> c \<and> c \<le> 8202))"

definition validateContent :: "jsstring \<Rightarrow> options \<Rightarrow> check_result" where
  "validateContent c opts =
     (let minL = (case minLength opts of None \<Rightarrow> 1 | Some n \<Rightarrow> n);
          maxL = (case maxLength opts of None \<Rightarrow> 10000 | Some n \<Rightarrow> n);
          allowE = (case allowEmpty opts of None \<Rightarrow> False | Some e \<Rightarrow> e)
      in if c = [] \<or> list_all isWhiteSpace c
         then (if allowE then \<lparr>isValid = True, foundWords = [], message = []\<rparr>
               else \<lparr>isValid = False, foundWords = [], message = msg_empty\<rparr>)
         else if length c < minL
         then \<lparr>isValid = False, foundWords = [],
               message = msg_too_short @ decimal minL @ msg_chars\<rparr>
         else if length c > maxL
         then \<lparr>isValid = False, foundWords = [],
               message = msg_too_long @ decimal maxL @ msg_chars\<rparr>
         else
           let sensitiveCheck = checkSensitiveContent (Some c) (strictMode opts)
           in if \<not> isValid sensitiveCheck
              then \<lparr>isValid = False, foundWords = foundWords sensitiveCheck,
                    message = msg_improper\<rparr>
              else \<lparr>isValid = True, foundWords = [], message = msg_valid\<rparr>)"

section \<open>Notifications\<close>

text \<open>
  What the handlers cannot decide: the identifier the store gives to a comment it
  creates, and whether the notification collection refuses a write.
\<close>

record env =
  new_comment_id :: oid
  notification_store_fails :: bool

text \<open>
  The validators of the notification schema that a created record can fail: title and
  content are required (a required string is not empty) and have a maximal length of 100
  and 500.
\<close>

definition notification_valid :: "notification \<Rightarrow> bool" where
  "notification_valid n =
     (title n \<noteq> [] \<and> length (title n) \<le> 100 \<and> n_content n \<noteq> [] \<and> length (n_content n) \<le> 500)"

text \<open>\<open>Notification.create\<close>: \<open>None\<close> when it throws.\<close>

definition Notification_create :: "env \<Rightarrow> store \<Rightarrow> notification \<Rightarrow> store option" where
  "Notification_create e s n =
     (if notification_store_fails e \<or> \<not> notification_valid n then None
      else Some (s\<lparr>notifications := notifications s @ [n]\<rparr>))"

section \<open>The comment routes\<close>

text \<open>
  Literals of the comment routes: "comment" and "reply" (prefixes of a validation
  message), "blog does not exist", "comment created", "server error", "new comment"
  (title), " commented on your blog <<" and ">>" (around the blog title), "the comment to
  reply to does not exist", "replied", "new reply" (title), " replied to your comment in
  <<" and ">>" with its tail, "comment does not exist", "you can only delete your own
  comments", "comment deleted", "comment liked" (title), " liked your comment in <<",
  "liked", "like removed", and the custom texts of the body schemas: "comment content
  must not be empty", "blog id must not be empty", "reply content must not be empty",
  "comment id must not be empty".
\<close>

definition c_comment :: jsstring where
  "c_comment = [35780, 35770]"

definition c_reply :: jsstring where
  "c_reply = [22238, 22797]"

definition msg_blog_missing :: jsstring where
  "msg_blog_missing = [21338, 23458, 19981, 23384, 22312]"

definition msg_comment_created :: jsstring where
  "msg_comment_created = [35780, 35770, 21019, 24314, 25104, 21151]"

definition msg_server_error :: jsstring where
  "msg_server_error = [26381, 21153, 22120, 38169, 35823]"

definition title_new_comment :: jsstring where
  "title_new_comment = [26032, 35780, 35770, 36890, 30693]"

definition text_commented :: jsstring where
  "text_commented = [32, 35780, 35770, 20102, 24744, 30340, 21338, 23458, 12298]"

definition text_close :: jsstring where
  "text_close = [12299]"

definition msg_parent_missing :: jsstring where
  "msg_parent_missing = [35201, 22238, 22797, 30340, 35780, 35770, 19981, 23384, 22312]"

definition msg_reply_ok :: jsstring where
  "msg_reply_ok = [22238, 22797, 25104, 21151]"

definition title_new_reply :: jsstring where
  "title_new_reply = [26032, 22238, 22797, 36890, 30693]"

definition text_replied :: jsstring where
  "text_replied = [32, 22238, 22797, 20102, 24744, 22312, 12298]"

definition text_in_comment :: jsstring where
  "text_in_comment = [12299, 20013, 30340, 35780, 35770]"

definition msg_comment_missing :: jsstring where
  "msg_comment_missing = [35780, 35770, 19981, 23384, 22312]"

definition msg_only_own :: jsstring where
  "msg_only_own = [21482, 33021, 21024, 38500, 33258, 24049, 30340, 35780, 35770]"

definition msg_deleted :: jsstring where
  "msg_deleted = [35780, 35770, 21024, 38500, 25104, 21151]"

definition title_liked :: jsstring where
  "title_liked = [35780, 35770, 34987, 28857, 36190]"

definition text_liked :: jsstring where
  "text_liked = [32, 28857, 36190, 20102, 24744, 22312, 12298]"

definition msg_like_ok :: jsstring where
  "msg_like_ok = [28857, 36190, 25104, 21151]"

definition msg_unlike_ok :: jsstring where
  "msg_unlike_ok = [21462, 28040, 28857, 36190, 25104, 21151]"

definition msg_content_required :: jsstring where
  "msg_content_required = [35780, 35770, 20869, 23481, 19981, 33021, 20026, 31354]"

definition msg_blogId_required :: jsstring where
  "msg_blogId_required = [21338, 23458, 73, 68, 19981, 33021, 20026, 31354]"

definition msg_reply_required :: jsstring where
  "msg_reply_required = [22238, 22797, 20869, 23481, 19981, 33021, 20026, 31354]"

definition msg_commentId_required :: jsstring where
  "msg_commentId_required = [35780, 35770, 73, 68, 19981, 33021, 20026, 31354]"

text \<open>
  \<open>Comment.findById\<close>; \<open>Comment.create\<close>, which the store refuses (it throws) when the
  identifier is already taken, since \<open>_id\<close> is unique; \<open>save\<close>, which writes a loaded
  document back under its identifier.
\<close>

definition findById :: "store \<Rightarrow> oid \<Rightarrow> comment option" where
  "findById s i = find (\<lambda>c. comment_id c = i) (comments s)"

definition Comment_create :: "store \<Rightarrow> comment \<Rightarrow> store option" where
  "Comment_create s c =
     (if comment_id c \<in> set (map comment_id (comments s)) then None
      else Some (s\<lparr>comments := comments s @ [c]\<rparr>))"

definition save :: "store \<Rightarrow> comment \<Rightarrow> store" where
  "save s c = s\<lparr>comments := map (\<lambda>d. if comment_id d = comment_id c then c else d) (comments s)\<rparr>"

definition content_options :: options where
  "content_options = \<lparr>minLength = Some 1, maxLength = Some 1000, allowEmpty = None,
                       strictMode = Some True\<rparr>"

definition validate_create_body :: "body \<Rightarrow> message + jsstring \<times> oid" where
  "validate_create_body b =
     (case joi_required b ''content''
             [(AnyRequired, msg_content_required), (StringEmpty, msg_content_required)] of
        Inl m \<Rightarrow> Inl m
      | Inr c \<Rightarrow>
          (case joi_required b ''blogId'' [(AnyRequired, msg_blogId_required)] of
             Inl m \<Rightarrow> Inl m
           | Inr blogId \<Rightarrow>
               (case joi_unknown b [''content'', ''blogId''] of
                  Some m \<Rightarrow> Inl m
                | None \<Rightarrow> Inr (c, blogId))))"

text \<open>
  \<open>POST /api/comment/create\<close>. The response carries the created comment with its
  author populated. The notification for the blog's owner is written inside its own
  \<open>try\<close>: when the commenter has no user document (reading \<open>commenter.username\<close>
  throws) or \<open>Notification.create\<close> throws, the store stays as it is after the comment
  was created. A refused \<open>Comment.create\<close> reaches the handler's outer \<open>catch\<close>.
\<close>

definition comment_create ::
  "env \<Rightarrow> store \<Rightarrow> jwt_payload \<Rightarrow> body \<Rightarrow> (comment \<times> user option) response \<times> store" where
  "comment_create e s tok b =
     (case validate_create_body b of
        Inl m \<Rightarrow> (respond 400 False m, s)
      | Inr (c, blogId) \<Rightarrow>
          let contentValidation = validateContent c content_options
          in if \<not> isValid contentValidation
             then (respond 400 False (Text (c_comment @ message contentValidation)), s)
             else
               (case blogs s blogId of
                  None \<Rightarrow> (respond 404 False (Text msg_blog_missing), s)
                | Some blog \<Rightarrow>
                    (case Comment_create s
                            \<lparr>comment_id = new_comment_id e, content = c,
                             comment_user = userId tok, comment_blog = blogId,
                             parentId = None, replyTo = None, fromUserName = None,
                             toUserName = None, likes = [], likeCount = 0\<rparr> of
                       None \<Rightarrow> (respond 500 False (Text msg_server_error), s)
                     | Some s1 \<Rightarrow>
                         let populatedComment =
                               map_option (\<lambda>d. (d, users s1 (comment_user d)))
                                 (findById s1 (new_comment_id e));
                             s2 =
                               (if blog_user blog \<noteq> userId tok
                                then
                                  (case users s1 (userId tok) of
                                     None \<Rightarrow> s1
                                   | Some commenter \<Rightarrow>
                                       (case Notification_create e s1
                                               \<lparr>recipient = blog_user blog,
                                                sender = userId tok,
                                                ntype = Comment_type,
                                                title = title_new_comment,
                                                n_content = username commenter @ text_commented
                                                            @ blog_title blog @ text_close,
                                                relatedBlog = Some blogId,
                                                relatedComment = Some (new_comment_id e),
                                                isRead = False, priority = Normal\<rparr> of
                                          None \<Rightarrow> s1
                                        | Some s' \<Rightarrow> s'))
                                else s1)
                         in (\<lparr>status = 200, success = True,
                              body_message = Some (Text msg_comment_created),
                              data = populatedComment\<rparr>, s2))))"

definition validate_reply_body :: "body \<Rightarrow> message + jsstring \<times> oid \<times> oid option" where
  "validate_reply_body b =
     (case joi_required b ''content'' [(AnyRequired, msg_reply_required)] of
        Inl m \<Rightarrow> Inl m
      | Inr c \<Rightarrow>
          (case joi_required b ''commentId'' [(AnyRequired, msg_commentId_required)] of
             Inl m \<Rightarrow> Inl m
           | Inr commentId \<Rightarrow>
               (case joi_optional b ''replyTo'' of
                  Inl m \<Rightarrow> Inl m
                | Inr rt \<Rightarrow>
                    (case joi_required b ''blogId'' [(AnyRequired, msg_blogId_required)] of
                       Inl m \<Rightarrow> Inl m
                     | Inr blogId \<Rightarrow>
                         (case joi_unknown b [''content'', ''commentId'', ''replyTo'', ''blogId''] of
                            Some m \<Rightarrow> Inl m
                          | None \<Rightarrow> Inr (c, commentId, rt))))))"

text \<open>
  \<open>POST /api/comment/reply\<close>. The new comment's \<open>parentId\<close> is the parent's
  \<open>parentId\<close> when the parent has one, else the parent's identifier; the addressee is
  the \<open>replyTo\<close> of the body when given, else the parent's author. The notification text
  starts with \<open>currentUser.name\<close>; the user was loaded with \<open>select('username')\<close> and the
  schema has no \<open>name\<close>, so the template prints "undefined". Inside the notification's
  \<open>try\<close>, a missing user document or a missing blog throws.
\<close>

definition text_undefined :: jsstring where
  "text_undefined = ascii ''undefined''"

definition comment_reply ::
  "env \<Rightarrow> store \<Rightarrow> jwt_payload \<Rightarrow> body
     \<Rightarrow> (comment \<times> user option \<times> user option) response \<times> store" where
  "comment_reply e s tok b =
     (case validate_reply_body b of
        Inl m \<Rightarrow> (respond 400 False m, s)
      | Inr (c, commentId, rt) \<Rightarrow>
          let contentValidation = validateContent c content_options
          in if \<not> isValid contentValidation
             then (respond 400 False (Text (c_reply @ message contentValidation)), s)
             else
               (case findById s commentId of
                  None \<Rightarrow> (respond 404 False (Text msg_parent_missing), s)
                | Some parentComment \<Rightarrow>
                    let replyToUserId =
                          (case rt of Some r \<Rightarrow> r | None \<Rightarrow> comment_user parentComment);
                        currentUser = users s (userId tok);
                        replyToUser = users s replyToUserId
                    in
                      (case Comment_create s
                              \<lparr>comment_id = new_comment_id e, content = c,
                               comment_user = userId tok,
                               comment_blog = comment_blog parentComment,
                               parentId = Some (case parentId parentComment of
                                                  Some p \<Rightarrow> p
                                                | None \<Rightarrow> comment_id parentComment),
                               replyTo = Some replyToUserId,
                               fromUserName = map_option username currentUser,
                               toUserName = map_option username replyToUser,
                               likes = [], likeCount = 0\<rparr> of
                         None \<Rightarrow> (respond 500 False (Text msg_server_error), s)
                       | Some s1 \<Rightarrow>
                           let populatedReply =
                                 map_option (\<lambda>d. (d, users s1 (comment_user d),
                                                   (case replyTo d of None \<Rightarrow> None
                                                    | Some r \<Rightarrow> users s1 r)))
                                   (findById s1 (new_comment_id e));
                               s2 =
                                 (if replyToUserId \<noteq> userId tok
                                  then
                                    (case blogs s1 (comment_blog parentComment) of
                                       None \<Rightarrow> s1
                                     | Some blog \<Rightarrow>
                                         (case currentUser of
                                            None \<Rightarrow> s1
                                          | Some cu \<Rightarrow>
                                              (case Notification_create e s1
                                                      \<lparr>recipient = replyToUserId,
                                                       sender = userId tok,
                                                       ntype = Reply_type,
                                                       title = title_new_reply,
                                                       n_content = text_undefined @ text_replied
                                                          @ blog_title blog @ text_in_comment,
                                                       relatedBlog =
                                                         Some (comment_blog parentComment),
                                                       relatedComment = Some (new_comment_id e),
                                                       isRead = False, priority = Normal\<rparr> of
                                                 None \<Rightarrow> s1
                                               | Some s' \<Rightarrow> s')))
                                  else s1)
                           in (\<lparr>status = 200, success = True,
                                body_message = Some (Text msg_reply_ok),
                                data = populatedReply\<rparr>, s2))))"

text \<open>
  \<open>POST /api/comment/like\<close>. \<open>findIndex\<close> gives the first position of the user in the
  likes; \<open>splice(likeIndex, 1)\<close> removes the element at that position.
\<close>

fun findIndex :: "('a \<Rightarrow> bool) \<Rightarrow> 'a list \<Rightarrow> nat option" where
  "findIndex p [] = None"
| "findIndex p (x # xs) = (if p x then Some 0 else map_option Suc (findIndex p xs))"

definition splice1 :: "nat \<Rightarrow> 'a list \<Rightarrow> 'a list" where
  "splice1 i xs = take i xs @ drop (Suc i) xs"

record like_data =
  data_likeCount :: int
  data_isLiked :: bool

definition validate_like_body :: "body \<Rightarrow> message + oid" where
  "validate_like_body b =
     (case joi_required b ''commentId'' [(AnyRequired, msg_commentId_required)] of
        Inl m \<Rightarrow> Inl m
      | Inr commentId \<Rightarrow>
          (case joi_unknown b [''commentId''] of Some m \<Rightarrow> Inl m | None \<Rightarrow> Inr commentId))"

definition comment_like ::
  "env \<Rightarrow> store \<Rightarrow> jwt_payload \<Rightarrow> body \<Rightarrow> like_data response \<times> store" where
  "comment_like e s tok b =
     (case validate_like_body b of
        Inl m \<Rightarrow> (respond 400 False m, s)
      | Inr commentId \<Rightarrow>
          (case findById s commentId of
             None \<Rightarrow> (respond 400 False (Text msg_comment_missing), s)
           | Some c \<Rightarrow>
               (case findIndex (\<lambda>like. like = userId tok) (likes c) of
                  None \<Rightarrow>
                    let pushed = c\<lparr>likes := likes c @ [userId tok]\<rparr>;
                        c1 = pushed\<lparr>likeCount := int (length (likes pushed))\<rparr>;
                        s1 = save s c1;
                        s2 =
                          (if comment_user c1 \<noteq> userId tok
                           then
                             (case users s1 (userId tok) of
                                None \<Rightarrow> s1
                              | Some liker \<Rightarrow>
                                  (case blogs s1 (comment_blog c1) of
                                     None \<Rightarrow> s1
                                   | Some blog \<Rightarrow>
                                       (case Notification_create e s1
                                               \<lparr>recipient = comment_user c1,
                                                sender = userId tok,
                                                ntype = Like_type,
                                                title = title_liked,
                                                n_content = username liker @ text_liked
                                                   @ blog_title blog @ text_in_comment,
                                                relatedBlog = Some (comment_blog c1),
                                                relatedComment = Some (comment_id c1),
                                                isRead = False, priority = Normal\<rparr> of
                                          None \<Rightarrow> s1
                                        | Some s' \<Rightarrow> s')))
                           else s1)
                    in (\<lparr>status = 200, success = True,
                         body_message = Some (Text msg_like_ok),
                         data = Some \<lparr>data_likeCount = likeCount c1, data_isLiked = True\<rparr>\<rparr>,
                        s2)
                | Some likeIndex \<Rightarrow>
                    let spliced = c\<lparr>likes := splice1 likeIndex (likes c)\<rparr>;
                        c1 = spliced\<lparr>likeCount := int (length (likes spliced))\<rparr>
                    in (\<lparr>status = 200, success = True,
                         body_message = Some (Text msg_unlike_ok),
                         data = Some \<lparr>data_likeCount = likeCount c1, data_isLiked = False\<rparr>\<rparr>,
                        save s c1))))"

text \<open>
  \<open>DELETE /api/comment/delete/:id\<close> behind the middleware \<open>requireCommentAuthor\<close>. The
  middleware's test is \<open>comment.user._id !== user._id && user?.role !== 'admin'\<close> with
  \<open>user\<close> the token payload. The left operand of the first comparison is the stored
  identifier object, the right one the payload's \<open>_id\<close>, which no login route sets, so it
  is \<open>undefined\<close>; an object is never strictly equal to \<open>undefined\<close> (nor to a string),
  and the comparison is true for every comment and payload.
\<close>

definition author_differs :: "comment \<Rightarrow> jwt_payload \<Rightarrow> bool" where
  "author_differs c tok = True"

definition requireCommentAuthor :: "store \<Rightarrow> jwt_payload \<Rightarrow> oid \<Rightarrow> unit response + comment" where
  "requireCommentAuthor s tok i =
     (case findById s i of
        None \<Rightarrow> Inl (respond 404 False (Text msg_comment_missing))
      | Some c \<Rightarrow>
          if author_differs c tok \<and> jwt_role tok \<noteq> Admin
          then Inl (respond 403 False (Text msg_only_own))
          else Inr c)"

text \<open>\<open>deleteMany\<close> removes the comment with the identifier and every comment whose
  \<open>parentId\<close> is the identifier.\<close>

definition comment_delete :: "store \<Rightarrow> jwt_payload \<Rightarrow> oid \<Rightarrow> unit response \<times> store" where
  "comment_delete s tok i =
     (case requireCommentAuthor s tok i of
        Inl r \<Rightarrow> (r, s)
      | Inr c \<Rightarrow>
          (respond 200 True (Text msg_deleted),
           s\<lparr>comments :=
                filter (\<lambda>d. \<not> (comment_id d = i \<or> parentId d = Some i)) (comments s)\<rparr>))"

section \<open>Notions used in the statements\<close>

text \<open>The comment after the user was added to its likes, or removed from them.\<close>

definition liked_comment :: "comment \<Rightarrow> oid \<Rightarrow> comment" where
  "liked_comment c u = c\<lparr>likes := likes c @ [u], likeCount := int (length (likes c)) + 1\<rparr>"

definition unliked_comment :: "comment \<Rightarrow> oid \<Rightarrow> comment" where
  "unliked_comment c u = c\<lparr>likes := remove1 u (likes c), likeCount := int (length (remove1 u (likes c)))\<rparr>"

text \<open>The record the like route hands to \<open>Notification.create\<close>.\<close>

definition like_notification :: "comment \<Rightarrow> oid \<Rightarrow> user \<Rightarrow> blog \<Rightarrow> notification" where
  "like_notification c u liker blog =
     \<lparr>recipient = comment_user c, sender = u, ntype = Like_type, title = title_liked,
      n_content = username liker @ text_liked @ blog_title blog @ text_in_comment,
      relatedBlog = Some (comment_blog c), relatedComment = Some (comment_id c),
      isRead = False, priority = Normal\<rparr>"

text \<open>
  The comment the create route stores, and the record it hands to
  \<open>Notification.create\<close>.
\<close>

definition new_comment :: "oid \<Rightarrow> jsstring \<Rightarrow> oid \<Rightarrow> oid \<Rightarrow> comment" where
  "new_comment i c u blogId =
     \<lparr>comment_id = i, content = c, comment_user = u, comment_blog = blogId,
      parentId = None, replyTo = None, fromUserName = None, toUserName = None,
      likes = [], likeCount = 0\<rparr>"

definition comment_notification :: "oid \<Rightarrow> blog \<Rightarrow> oid \<Rightarrow> user \<Rightarrow> oid \<Rightarrow> notification" where
  "comment_notification blogId blog u commenter i =
     \<lparr>recipient = blog_user blog, sender = u, ntype = Comment_type,
      title = title_new_comment,
      n_content = username commenter @ text_commented @ blog_title blog @ text_close,
      relatedBlog = Some blogId, relatedComment = Some i,
      isRead = False, priority = Normal\<rparr>"

text \<open>The addressee of a reply and the comment the reply route stores.\<close>

definition reply_target :: "comment \<Rightarrow> oid option \<Rightarrow> oid" where
  "reply_target parent rt = (case rt of Some r \<Rightarrow> r | None \<Rightarrow> comment_user parent)"

definition new_reply :: "store \<Rightarrow> oid \<Rightarrow> jsstring \<Rightarrow> oid \<Rightarrow> comment \<Rightarrow> oid option \<Rightarrow> comment" where
  "new_reply s i c u parent rt =
     \<lparr>comment_id = i, content = c, comment_user = u, comment_blog = comment_blog parent,
      parentId = Some (case parentId parent of Some p \<Rightarrow> p | None \<Rightarrow> comment_id parent),
      replyTo = Some (reply_target parent rt),
      fromUserName = map_option username (users s u),
      toUserName = map_option username (users s (reply_target parent rt)),
      likes = [], likeCount = 0\<rparr>"

text \<open>
  The invariant behind the two-level thread: identifiers are unique and every
  \<open>parentId\<close> is the identifier of a top-level comment of the collection.
\<close>

definition unique_ids :: "store \<Rightarrow> bool" where
  "unique_ids s = distinct (map comment_id (comments s))"

definition is_top_id :: "store \<Rightarrow> oid \<Rightarrow> bool" where
  "is_top_id s p = list_ex (\<lambda>c. comment_id c = p \<and> parentId c = None) (comments s)"

definition parents_top :: "store \<Rightarrow> bool" where
  "parents_top s =
     list_all (\<lambda>r. case parentId r of None \<Rightarrow> True | Some p \<Rightarrow> is_top_id s p) (comments s)"

definition threaded :: "store \<Rightarrow> bool" where
  "threaded s = (unique_ids s \<and> parents_top s)"

text \<open>
  The thread has two levels: no comment has the identifier of a reply as its
  \<open>parentId\<close>. The replies of a comment are the comments whose \<open>parentId\<close> is its
  identifier.
\<close>

definition is_reply_id :: "store \<Rightarrow> oid \<Rightarrow> bool" where
  "is_reply_id s i = list_ex (\<lambda>c. comment_id c = i \<and> parentId c \<noteq> None) (comments s)"

definition two_level :: "store \<Rightarrow> bool" where
  "two_level s =
     list_all (\<lambda>r. case parentId r of None \<Rightarrow> True | Some p \<Rightarrow> \<not> is_reply_id s p) (comments s)"

definition replies :: "store \<Rightarrow> oid \<Rightarrow> comment list" where
  "replies s i = filter (\<lambda>d. parentId d = Some i) (comments s)"

text \<open>
  The key of the user document that a text names, when the text casts to an identifier;
  the keys named by the token and by the body of a follow or unfollow request.
\<close>

definition key_of :: "jsstring \<Rightarrow> jsstring option" where
  "key_of t = map_option toString (castObjectId t)"

definition actor_key :: "jwt_payload \<Rightarrow> jsstring option" where
  "actor_key tok = key_of (userId tok)"

definition target_key :: "body \<Rightarrow> jsstring option" where
  "target_key b = (case validate_userId_body b of Inl m \<Rightarrow> None | Inr t \<Rightarrow> key_of t)"

text \<open>
  What a follow or unfollow request may change between two stores: nothing outside the
  user collection, no document created or deleted, and in a document only the following
  list (document of the token's user), the followers list (document named by the body)
  and the time stamp of these two documents.
\<close>

definition framed :: "jwt_payload \<Rightarrow> body \<Rightarrow> store \<Rightarrow> store \<Rightarrow> bool" where
  "framed tok b s s' =
    (blogs s' = blogs s \<and> comments s' = comments s \<and> notifications s' = notifications s \<and>
     (\<forall>k. case users s k of
            None \<Rightarrow> users s' k = None
          | Some u \<Rightarrow>
              (\<exists>u'. users s' k = Some u' \<and>
                 u'\<lparr>following := following u, followers := followers u,
                    updatedAt := updatedAt u\<rparr> = u \<and>
                 followingCount u' = followingCount u \<and> followersCount u' = followersCount u \<and>
                 (actor_key tok \<noteq> Some k \<longrightarrow> following u' = following u) \<and>
                 (target_key b \<noteq> Some k \<longrightarrow> followers u' = followers u) \<and>
                 (actor_key tok \<noteq> Some k \<and> target_key b \<noteq> Some k \<longrightarrow> u' = u))))"

section \<open>Example data\<close>

text \<open>
  Two registered users with no relations, as the registration routes create them: the
  texts of their identifiers, the identifiers, and bob's text in upper case.
\<close>

definition alice :: oid where
  "alice = ascii ''64b000000000000000000a11''"

definition bob :: oid where
  "bob = ascii ''64b000000000000000000b0b''"

definition bob_upper :: jsstring where
  "bob_upper = ascii ''64B000000000000000000B0B''"

definition alice_id :: objectid where
  "alice_id = [H6, H4, Hb, H0, H0, H0, H0, H0, H0, H0, H0, H0, H0, H0, H0, H0, H0, H0, H0, H0,
               H0, Ha, H1, H1]"

definition bob_id :: objectid where
  "bob_id = [H6, H4, Hb, H0, H0, H0, H0, H0, H0, H0, H0, H0, H0, H0, H0, H0, H0, H0, H0, H0,
             H0, Hb, H0, Hb]"

definition fresh_user :: "jsstring \<Rightarrow> user" where
  "fresh_user n = \<lparr>username = n, email = n @ ascii ''@x.io'', password = ascii ''hash'',
     role = User, avatar = None, createdAt = 0, isActive = True, lastLogin = None,
     following = [], followers = [], followersCount = 0, followingCount = 0,
     updatedAt = 0\<rparr>"

definition two_users :: store where
  "two_users = \<lparr>users = [alice \<mapsto> fresh_user (ascii ''alice''), bob \<mapsto> fresh_user (ascii ''bob'')],
     blogs = Map.empty, comments = [], notifications = []\<rparr>"

text \<open>Alice already follows bob, and the two lists agree.\<close>

definition following_bob :: store where
  "following_bob =
     \<lparr>users = [alice \<mapsto> (fresh_user (ascii ''alice''))\<lparr>following := [bob_id]\<rparr>,
               bob \<mapsto> (fresh_user (ascii ''bob''))\<lparr>followers := [alice_id]\<rparr>],
      blogs = Map.empty, comments = [], notifications = []\<rparr>"

definition follow_bob :: body where
  "follow_bob = [(''userId'', JString bob)]"

definition follow_bob_upper :: body where
  "follow_bob_upper = [(''userId'', JString bob_upper)]"

text \<open>Token payloads: two members and an admin.\<close>

definition alice_token :: jwt_payload where
  "alice_token = \<lparr>userId = alice, jwt_role = User\<rparr>"

definition bob_token :: jwt_payload where
  "bob_token = \<lparr>userId = bob, jwt_role = User\<rparr>"

definition carol_token :: jwt_payload where
  "carol_token = \<lparr>userId = ascii ''c3'', jwt_role = Admin\<rparr>"

text \<open>
  A forum: bob's blog with one comment by bob and two replies to it; a working and a
  failing notification store; request bodies.
\<close>

definition blog1 :: oid where
  "blog1 = ascii ''g1''"

definition top1 :: comment where
  "top1 = \<lparr>comment_id = ascii ''c1'', content = ascii ''first'', comment_user = bob,
           comment_blog = blog1, parentId = None, replyTo = None, fromUserName = None,
           toUserName = None, likes = [], likeCount = 0\<rparr>"

definition reply1 :: comment where
  "reply1 = \<lparr>comment_id = ascii ''r1'', content = ascii ''second'', comment_user = alice,
           comment_blog = blog1, parentId = Some (ascii ''c1''), replyTo = Some bob,
           fromUserName = Some (ascii ''alice''), toUserName = Some (ascii ''bob''),
           likes = [], likeCount = 0\<rparr>"

definition reply2 :: comment where
  "reply2 = \<lparr>comment_id = ascii ''r2'', content = ascii ''third'', comment_user = bob,
           comment_blog = blog1, parentId = Some (ascii ''c1''), replyTo = Some alice,
           fromUserName = Some (ascii ''bob''), toUserName = Some (ascii ''alice''),
           likes = [], likeCount = 0\<rparr>"

definition forum :: store where
  "forum = \<lparr>users = [alice \<mapsto> fresh_user (ascii ''alice''), bob \<mapsto> fresh_user (ascii ''bob'')],
     blogs = [blog1 \<mapsto> \<lparr>blog_user = bob, blog_title = ascii ''hello''\<rparr>],
     comments = [top1, reply1, reply2], notifications = []\<rparr>"

definition working :: env where
  "working = \<lparr>new_comment_id = ascii ''n1'', notification_store_fails = False\<rparr>"

definition failing :: env where
  "failing = \<lparr>new_comment_id = ascii ''n1'', notification_store_fails = True\<rparr>"

definition like_c1 :: body where
  "like_c1 = [(''commentId'', JString (ascii ''c1''))]"

definition clean_comment :: body where
  "clean_comment = [(''content'', JString (ascii ''this is clean text'')), (''blogId'', JString blog1)]"

definition clean_reply :: body where
  "clean_reply = [(''content'', JString (ascii ''this is clean text'')),
                  (''commentId'', JString (ascii ''c1'')), (''blogId'', JString blog1)]"

section \<open>Properties of the content filter\<close>

lemma startsWith_iff: "startsWith t w \<longleftrightarrow> (\<exists>ss. t = w @ ss)"
  by (induction t w rule: startsWith.induct) auto

lemma includes_str_iff: "includes_str t w \<longleftrightarrow> (\<exists>ps ss. t = ps @ w @ ss)"
proof (induction t)
  case Nil
  show ?case by auto
next
  case (Cons d t)
  show ?case
  proof
    assume "includes_str (d # t) w"
    then consider "startsWith (d # t) w" | "includes_str t w" by auto
    then show "\<exists>ps ss. d # t = ps @ w @ ss"
    proof cases
      case 1
      then obtain ss where "d # t = w @ ss" using startsWith_iff by blast
      then have "d # t = [] @ w @ ss" by simp
      then show ?thesis by blast
    next
      case 2
      then obtain ps ss where "t = ps @ w @ ss" using Cons.IH by blast
      then have "d # t = (d # ps) @ w @ ss" by simp
      then show ?thesis by blast
    qed
  next
    assume "\<exists>ps ss. d # t = ps @ w @ ss"
    then obtain ps ss where e: "d # t = ps @ w @ ss" by blast
    show "includes_str (d # t) w"
    proof (cases ps)
      case Nil
      with e have "startsWith (d # t) w" using startsWith_iff by auto
      then show ?thesis by simp
    next
      case (Cons p ps')
      with e have "t = ps' @ w @ ss" by simp
      then have "includes_str t w" using Cons.IH by blast
      then show ?thesis by simp
    qed
  qed
qed

lemma includes_str_lower:
  "includes_str (toLowerCase (ps @ w @ ss)) (toLowerCase w)"
proof -
  have "toLowerCase (ps @ w @ ss) = toLowerCase ps @ toLowerCase w @ toLowerCase ss"
    by (simp add: toLowerCase_def)
  then show ?thesis using includes_str_iff by blast
qed

lemma kill_in_sensitiveWords: "[26432, 27515] \<in> set sensitiveWords"
  by (simp add: sensitiveWords_def)

lemma found_when_included:
  assumes "t \<noteq> []" and "w \<in> set sensitiveWords"
    and "includes_str (toLowerCase t) (toLowerCase w)"
  shows "w \<in> set (foundWords (checkSensitiveContent (Some t) sm))"
    and "\<not> isValid (checkSensitiveContent (Some t) sm)"
proof -
  let ?found = "filter (\<lambda>word. includes_str (toLowerCase t) (toLowerCase word)) sensitiveWords
     @ (if (case sm of None \<Rightarrow> True | Some b \<Rightarrow> b)
        then filter (\<lambda>word. includes_str (toLowerCase t) (toLowerCase word)) politicalSensitiveWords
        else [])"
  have f: "foundWords (checkSensitiveContent (Some t) sm) = ?found"
    using assms(1) by (simp add: checkSensitiveContent_def Let_def)
  have v: "isValid (checkSensitiveContent (Some t) sm) = (?found = [])"
    using assms(1) by (simp add: checkSensitiveContent_def Let_def)
  have m: "w \<in> set ?found" using assms(2,3) by simp
  show "w \<in> set (foundWords (checkSensitiveContent (Some t) sm))"
    using f m by simp
  have "?found \<noteq> []" using m by (metis empty_iff empty_set)
  then show "\<not> isValid (checkSensitiveContent (Some t) sm)" using v by simp
qed

lemma strict_default:
  "checkSensitiveContent text None = checkSensitiveContent text (Some True)"
  by (simp add: checkSensitiveContent_def Let_def split: option.splits)

lemma kill_found:
  "\<not> isValid (checkSensitiveContent (Some (ps @ [26432, 27515] @ ss)) None)
   \<and> [26432, 27515] \<in> set (foundWords
                (checkSensitiveContent (Some (ps @ [26432, 27515] @ ss)) None))"
proof -
  let ?w = "[26432, 27515] :: jsstring"
  let ?t = "ps @ ?w @ ss"
  have ne: "?t \<noteq> []" by simp
  have lw: "toLowerCase ?w = ?w"
    by (simp add: toLowerCase_def lowerUnit_def)
  have inc: "includes_str (toLowerCase ?t) (toLowerCase ?w)"
    by (rule includes_str_lower)
  from found_when_included [OF ne kill_in_sensitiveWords inc, of None]
  show ?thesis by simp
qed

lemma lower_clean: "toLowerCase (ascii ''this is clean text'') = [116,104,105,115,32,105,115,32,99,108,101,97,110,32,116,101,120,116]"
  by (simp add: ascii_def toLowerCase_def lowerUnit_def)

lemma check_clean_text:
  "checkSensitiveContent (Some (ascii ''this is clean text'')) None
     = \<lparr>isValid = True, foundWords = [], message = []\<rparr>"
proof -
  have ne: "ascii ''this is clean text'' \<noteq> []" by (simp add: ascii_def)
  have lw: "\<And>w. lowerUnit w = (if 65 \<le> w \<and> w \<le> 90 then w + 32 else w)" by (simp add: lowerUnit_def)
  have s: "filter (\<lambda>word. includes_str (toLowerCase (ascii ''this is clean text'')) (toLowerCase word)) sensitiveWords = []"
    unfolding lower_clean by (simp add: sensitiveWords_def toLowerCase_def lowerUnit_def)
  have p: "filter (\<lambda>word. includes_str (toLowerCase (ascii ''this is clean text'')) (toLowerCase word)) politicalSensitiveWords = []"
    unfolding lower_clean by (simp add: politicalSensitiveWords_def toLowerCase_def lowerUnit_def)
  show ?thesis
    using ne by (simp add: checkSensitiveContent_def Let_def s p)
qed

lemma found_iff:
  "w \<in> set (foundWords (checkSensitiveContent (Some (x # xs)) sm)) \<longleftrightarrow>
     (w \<in> set sensitiveWords \<or>
      ((case sm of None \<Rightarrow> True | Some b \<Rightarrow> b) \<and> w \<in> set politicalSensitiveWords))
     \<and> (\<exists>ps ss. toLowerCase (x # xs) = ps @ toLowerCase w @ ss)"
  by (auto simp: checkSensitiveContent_def Let_def includes_str_iff)

lemma valid_iff:
  "isValid (checkSensitiveContent (Some (x # xs)) sm)
     = (foundWords (checkSensitiveContent (Some (x # xs)) sm) = [])"
  by (simp add: checkSensitiveContent_def Let_def)

text \<open>
  Claim C9. The check of the text "this is clean text" with the default strictness accepts
  it and finds no word. Every text in which the code units U+6740 U+6B7B occur next to each
  other is rejected by the check with the default strictness, and that word is among the
  found words. Leaving the strictness out is the same as passing true. For a text that is
  not empty, a word is found exactly when it is in the base table, or in the political
  table and the check is strict, and its lower-case form occurs in the lower-case form of
  the text; the text is valid exactly when no word is found.
\<close>

theorem check_clean_and_kill:
  "checkSensitiveContent (Some (ascii ''this is clean text'')) None
     = \<lparr>isValid = True, foundWords = [], message = []\<rparr>
   \<and> (\<forall>ps ss. \<not> isValid (checkSensitiveContent (Some (ps @ [26432, 27515] @ ss)) None)
          \<and> [26432, 27515] \<in> set (foundWords
                (checkSensitiveContent (Some (ps @ [26432, 27515] @ ss)) None)))
   \<and> (\<forall>tx. checkSensitiveContent tx None = checkSensitiveContent tx (Some True))
   \<and> (\<forall>x xs sm w.
         (w \<in> set (foundWords (checkSensitiveContent (Some (x # xs)) sm))) =
           ((w \<in> set sensitiveWords \<or>
             ((case sm of None \<Rightarrow> True | Some b \<Rightarrow> b) \<and> w \<in> set politicalSensitiveWords))
            \<and> (\<exists>ps ss. toLowerCase (x # xs) = ps @ toLowerCase w @ ss)))
   \<and> (\<forall>x xs sm. isValid (checkSensitiveContent (Some (x # xs)) sm)
         = (foundWords (checkSensitiveContent (Some (x # xs)) sm) = []))"
proof (intro conjI allI)
  show "checkSensitiveContent (Some (ascii ''this is clean text'')) None
     = \<lparr>isValid = True, foundWords = [], message = []\<rparr>"
    by (rule check_clean_text)
next
  fix ps ss :: jsstring
  show "\<not> isValid (checkSensitiveContent (Some (ps @ [26432, 27515] @ ss)) None)"
    using kill_found [of ps ss] by (rule conjunct1)
  show "[26432, 27515] \<in> set (foundWords
                (checkSensitiveContent (Some (ps @ [26432, 27515] @ ss)) None))"
    using kill_found [of ps ss] by (rule conjunct2)
next
  fix tx
  show "checkSensitiveContent tx None = checkSensitiveContent tx (Some True)"
    by (rule strict_default)
next
  fix x xs sm w
  show "(w \<in> set (foundWords (checkSensitiveContent (Some (x # xs)) sm))) =
           ((w \<in> set sensitiveWords \<or>
             ((case sm of None \<Rightarrow> True | Some b \<Rightarrow> b) \<and> w \<in> set politicalSensitiveWords))
            \<and> (\<exists>ps ss. toLowerCase (x # xs) = ps @ toLowerCase w @ ss))"
    by (rule found_iff)
next
  fix x xs sm
  show "isValid (checkSensitiveContent (Some (x # xs)) sm)
         = (foundWords (checkSensitiveContent (Some (x # xs)) sm) = [])"
    by (rule valid_iff)
qed

section \<open>Properties of the follow routes\<close>

lemma alice_bob: "alice \<noteq> bob"
  by (simp add: alice_def bob_def ascii_def)

lemma hexval_hexchar: "hexval (hexchar d) = Some d"
  by (cases d) (simp_all add: hexval_def)

lemma hexvals_toString: "hexvals (toString i) = Some i"
  by (induction i) (simp_all add: toString_def hexval_hexchar)

lemma cast_text:
  assumes "castObjectId t = Some B" and "toString x = t"
  shows "x = B"
proof -
  have "hexvals t = Some B" using assms(1) by (simp add: castObjectId_def split: if_splits)
  moreover have "hexvals t = Some x" using hexvals_toString [of x] by (simp only: assms(2))
  ultimately show ?thesis by simp
qed

lemma toString_inj:
  assumes "toString x = toString y"
  shows "x = y"
proof -
  have "Some x = hexvals (toString x)" by (simp only: hexvals_toString)
  also have "\<dots> = hexvals (toString y)" by (simp only: assms)
  also have "\<dots> = Some y" by (simp only: hexvals_toString)
  finally show ?thesis by simp
qed

lemma not_in_texts:
  assumes "castObjectId t = Some B" and "B \<notin> set xs"
  shows "t \<notin> set (map toString xs)"
  using assms cast_text by auto

lemma follow_success:
  assumes v: "validate_userId_body b = Inr t"
    and cb: "castObjectId t = Some B"
    and ca: "castObjectId (userId tok) = Some A"
    and ne: "A \<noteq> B"
    and a: "users s (toString A) = Some ua"
    and bb: "users s (toString B) = Some ub"
    and nf: "t \<notin> set (map toString (following ua))"
  shows "follow now s tok b =
      (respond 200 True (Text msg_follow_ok),
       s\<lparr>users := (users s)
          (toString A \<mapsto> ua\<lparr>following := following ua @ [B], updatedAt := now\<rparr>,
           toString B \<mapsto> ub\<lparr>followers := followers ub @ [A], updatedAt := now\<rparr>)\<rparr>)"
proof -
  have nt: "t \<noteq> userId tok" using cb ca ne by auto
  have nk: "toString B \<noteq> toString A" using ne toString_inj by auto
  show ?thesis
    using v cb ca nt nk a bb nf
    by (simp add: follow_def push_following_def push_followers_def)
qed

lemma unfollow_success:
  assumes v: "validate_userId_body b = Inr t"
    and cb: "castObjectId t = Some B"
    and ca: "castObjectId (userId tok) = Some A"
    and ne: "A \<noteq> B"
    and a: "users s (toString A) = Some ua"
    and bb: "users s (toString B) = Some ub"
    and nf: "t \<in> set (map toString (following ua))"
  shows "unfollow now s tok b =
      (respond 200 True (Text msg_unfollow_ok),
       s\<lparr>users := (users s)
          (toString A \<mapsto> ua\<lparr>following := filter (\<lambda>y. y \<noteq> B) (following ua), updatedAt := now\<rparr>,
           toString B \<mapsto> ub\<lparr>followers := filter (\<lambda>y. y \<noteq> A) (followers ub), updatedAt := now\<rparr>)\<rparr>)"
proof -
  have nk: "toString B \<noteq> toString A" using ne toString_inj by auto
  show ?thesis
    using v cb ca nk a bb nf
    by (simp add: unfollow_def pull_following_def pull_followers_def)
qed

lemma follow_already:
  assumes v: "validate_userId_body b = Inr t"
    and cb: "castObjectId t = Some B"
    and ca: "castObjectId (userId tok) = Some A"
    and ne: "A \<noteq> B"
    and a: "users s (toString A) = Some ua"
    and bb: "users s (toString B) = Some ub"
    and nf: "t \<in> set (map toString (following ua))"
  shows "follow now s tok b = (respond 400 False (Text msg_already_following), s)"
proof -
  have nt: "t \<noteq> userId tok" using cb ca ne by auto
  show ?thesis using v cb ca nt a bb nf by (simp add: follow_def)
qed

text \<open>
  Claim C1. Let the token name the user A and the validated \<open>userId\<close> of the body name
  the user B (each text casts to the identifier), with A and B distinct, both with a user
  document, and B not in A's following list. Then the follow request answers 200, and
  afterwards B is in A's following list and A is in B's followers list: each list is the
  old one with the other identifier appended.
\<close>

theorem follow_adds_both_sides:
  assumes "validate_userId_body b = Inr t"
    and "castObjectId t = Some B"
    and "castObjectId (userId tok) = Some A"
    and "A \<noteq> B"
    and "users s (toString A) = Some ua"
    and "users s (toString B) = Some ub"
    and "B \<notin> set (following ua)"
  shows "status (fst (follow now s tok b)) = 200 \<and>
         (\<exists>ua' ub'. users (snd (follow now s tok b)) (toString A) = Some ua' \<and>
                    users (snd (follow now s tok b)) (toString B) = Some ub' \<and>
                    following ua' = following ua @ [B] \<and>
                    followers ub' = followers ub @ [A] \<and>
                    B \<in> set (following ua') \<and> A \<in> set (followers ub'))"
proof -
  have nf: "t \<notin> set (map toString (following ua))"
    using not_in_texts [OF assms(2) assms(7)] .
  have nk: "toString B \<noteq> toString A" using assms(4) toString_inj by auto
  show ?thesis
    unfolding follow_success [OF assms(1-6) nf] using nk
    by (simp add: respond_def)
qed

lemma cast_alice: "castObjectId alice = Some alice_id"
  by (simp add: castObjectId_def alice_def alice_id_def ascii_def hexval_def)

lemma cast_bob: "castObjectId bob = Some bob_id"
  by (simp add: castObjectId_def bob_def bob_id_def ascii_def hexval_def)

lemma cast_bob_upper: "castObjectId bob_upper = Some bob_id"
  by (simp add: castObjectId_def bob_upper_def bob_id_def ascii_def hexval_def)

lemma text_alice: "toString alice_id = alice"
  by (simp add: toString_def alice_def alice_id_def ascii_def)

lemma text_bob: "toString bob_id = bob"
  by (simp add: toString_def bob_def bob_id_def ascii_def)

lemma ids_differ: "alice_id \<noteq> bob_id"
  by (simp add: alice_id_def bob_id_def)

lemma upper_differs: "bob_upper \<noteq> bob" "bob_upper \<noteq> alice"
  by (simp_all add: bob_upper_def bob_def alice_def ascii_def)

lemma validate_follow_bob: "validate_userId_body follow_bob = Inr bob"
  by (simp add: follow_bob_def validate_userId_body_def joi_required_def joi_unknown_def
      bob_def ascii_def)

lemma validate_follow_bob_upper: "validate_userId_body follow_bob_upper = Inr bob_upper"
  by (simp add: follow_bob_upper_def validate_userId_body_def joi_required_def joi_unknown_def
      bob_upper_def ascii_def)

lemma two_users_docs:
  "users two_users (toString alice_id) = Some (fresh_user (ascii ''alice''))"
  "users two_users (toString bob_id) = Some (fresh_user (ascii ''bob''))"
  using alice_bob by (simp_all add: two_users_def text_alice text_bob)

theorem follow_adds_both_sides_witness:
  "status (fst (follow 7 two_users alice_token follow_bob)) = 200 \<and>
   (\<exists>ua' ub'. users (snd (follow 7 two_users alice_token follow_bob)) alice = Some ua' \<and>
              users (snd (follow 7 two_users alice_token follow_bob)) bob = Some ub' \<and>
              following ua' = [bob_id] \<and> followers ub' = [alice_id] \<and>
              bob_id \<in> set (following ua') \<and> alice_id \<in> set (followers ub'))"
proof -
  have ca: "castObjectId (userId alice_token) = Some alice_id"
    using cast_alice by (simp add: alice_token_def)
  have e: "following (fresh_user (ascii ''alice'')) = []" "followers (fresh_user (ascii ''bob'')) = []"
    by (simp_all add: fresh_user_def)
  have nf: "bob_id \<notin> set (following (fresh_user (ascii ''alice'')))" using e by simp
  show ?thesis
    using follow_adds_both_sides [OF validate_follow_bob cast_bob ca ids_differ
        two_users_docs(1) two_users_docs(2) nf, of 7] e
    by (simp add: text_alice text_bob)
qed

lemma repeated_follow_canonical:
  assumes v: "validate_userId_body b = Inr t"
    and cb: "castObjectId t = Some U2"
    and canon: "toString U2 = t"
    and ca: "castObjectId (userId tok) = Some U1"
    and ne: "U1 \<noteq> U2"
    and u1: "users s (toString U1) = Some u1"
    and u2: "users s (toString U2) = Some u2"
    and nf: "U2 \<notin> set (following u1)"
    and s1: "s1 = snd (follow now s tok b)"
  shows "fst (follow now s tok b) = respond 200 True (Text msg_follow_ok)"
    and "follow now' s1 tok b = (respond 400 False (Text msg_already_following), s1)"
proof -
  let ?u1' = "u1\<lparr>following := following u1 @ [U2], updatedAt := now\<rparr>"
  let ?u2' = "u2\<lparr>followers := followers u2 @ [U1], updatedAt := now\<rparr>"
  have nt: "t \<notin> set (map toString (following u1))" using not_in_texts [OF cb nf] .
  have nk: "toString U2 \<noteq> toString U1" using ne toString_inj by auto
  have f: "follow now s tok b =
      (respond 200 True (Text msg_follow_ok),
       s\<lparr>users := (users s)(toString U1 \<mapsto> ?u1', toString U2 \<mapsto> ?u2')\<rparr>)"
    using follow_success [OF v cb ca ne u1 u2 nt] .
  show "fst (follow now s tok b) = respond 200 True (Text msg_follow_ok)" using f by simp
  have a1: "users s1 (toString U1) = Some ?u1'" using f s1 nk by simp
  have a2: "users s1 (toString U2) = Some ?u2'" using f s1 by simp
  have m: "t \<in> set (map toString (following ?u1'))" using canon by simp
  show "follow now' s1 tok b = (respond 400 False (Text msg_already_following), s1)"
    using follow_already [OF v cb ca ne a1 a2 m] .
qed

lemma alice_token_cast: "castObjectId (userId alice_token) = Some alice_id"
  using cast_alice by (simp add: alice_token_def)

lemma first_upper_follow:
  "follow 1 two_users alice_token follow_bob_upper =
     (respond 200 True (Text msg_follow_ok),
      two_users\<lparr>users := (users two_users)
         (alice \<mapsto> (fresh_user (ascii ''alice''))\<lparr>following := [bob_id], updatedAt := 1\<rparr>,
          bob \<mapsto> (fresh_user (ascii ''bob''))\<lparr>followers := [alice_id], updatedAt := 1\<rparr>)\<rparr>)"
proof -
  have nf: "bob_upper \<notin> set (map toString (following (fresh_user (ascii ''alice''))))"
    by (simp add: fresh_user_def)
  show ?thesis
    using follow_success [OF validate_follow_bob_upper cast_bob_upper alice_token_cast ids_differ
        two_users_docs(1) two_users_docs(2) nf, of 1]
    by (simp add: text_alice text_bob fresh_user_def)
qed

text \<open>
  Claim C2 at a failing input. Alice follows bob twice, each time with bob's identifier
  written in upper case. Both requests answer 200 "followed"; afterwards bob is twice in
  alice's following list, alice twice in bob's followers list, and the follow information
  reports a following count of 2. The already-following test compares the text of the
  body with the lower-case texts of the stored identifiers, while the lookup and the
  updates cast the text. With the lower-case text the second request answers 400
  (\<open>repeated_follow_canonical\<close>).
\<close>

theorem repeated_follow_in_upper_case:
  "fst (follow 1 two_users alice_token follow_bob_upper) = respond 200 True (Text msg_follow_ok)
   \<and> fst (follow 2 (snd (follow 1 two_users alice_token follow_bob_upper))
             alice_token follow_bob_upper)
       = respond 200 True (Text msg_follow_ok)
   \<and> map_option following
         (users (snd (follow 2 (snd (follow 1 two_users alice_token follow_bob_upper))
                        alice_token follow_bob_upper)) alice)
       = Some [bob_id, bob_id]
   \<and> map_option followers
         (users (snd (follow 2 (snd (follow 1 two_users alice_token follow_bob_upper))
                        alice_token follow_bob_upper)) bob)
       = Some [alice_id, alice_id]
   \<and> map_option info_followingCount
         (data (info (snd (follow 2 (snd (follow 1 two_users alice_token follow_bob_upper))
                              alice_token follow_bob_upper)) alice_token))
       = Some 2"
proof -
  let ?s1 = "two_users\<lparr>users := (users two_users)
         (alice \<mapsto> (fresh_user (ascii ''alice''))\<lparr>following := [bob_id], updatedAt := 1\<rparr>,
          bob \<mapsto> (fresh_user (ascii ''bob''))\<lparr>followers := [alice_id], updatedAt := 1\<rparr>)\<rparr>"
  have a1: "users ?s1 (toString alice_id)
      = Some ((fresh_user (ascii ''alice''))\<lparr>following := [bob_id], updatedAt := 1\<rparr>)"
    using alice_bob by (simp add: text_alice)
  have b1: "users ?s1 (toString bob_id)
      = Some ((fresh_user (ascii ''bob''))\<lparr>followers := [alice_id], updatedAt := 1\<rparr>)"
    by (simp add: text_bob)
  have nf: "bob_upper \<notin> set (map toString
      (following ((fresh_user (ascii ''alice''))\<lparr>following := [bob_id], updatedAt := 1\<rparr>)))"
    using upper_differs(1) by (simp add: text_bob)
  have second: "follow 2 ?s1 alice_token follow_bob_upper =
     (respond 200 True (Text msg_follow_ok),
      ?s1\<lparr>users := (users ?s1)
         (alice \<mapsto> (fresh_user (ascii ''alice''))\<lparr>following := [bob_id, bob_id], updatedAt := 2\<rparr>,
          bob \<mapsto> (fresh_user (ascii ''bob''))\<lparr>followers := [alice_id, alice_id], updatedAt := 2\<rparr>)\<rparr>)"
    using follow_success [OF validate_follow_bob_upper cast_bob_upper alice_token_cast ids_differ
        a1 b1 nf, of 2]
    by (simp add: text_alice text_bob fresh_user_def)
  have ne: "alice \<noteq> []" by (simp add: alice_def ascii_def)
  have i: "map_option info_followingCount (data (info
      (?s1\<lparr>users := (users ?s1)
         (alice \<mapsto> (fresh_user (ascii ''alice''))\<lparr>following := [bob_id, bob_id], updatedAt := 2\<rparr>,
          bob \<mapsto> (fresh_user (ascii ''bob''))\<lparr>followers := [alice_id, alice_id], updatedAt := 2\<rparr>)\<rparr>)
      alice_token)) = Some 2"
    using ne alice_bob cast_alice
    by (simp add: info_def alice_token_def text_alice text_bob populate_def
        List.map_filter_simps Let_def)
  show ?thesis
    unfolding first_upper_follow using second i alice_bob by simp
qed

lemma roundtrip_when_not_followed:
  assumes v: "validate_userId_body b = Inr t"
    and cb: "castObjectId t = Some B"
    and canon: "toString B = t"
    and ca: "castObjectId (userId tok) = Some A"
    and ne: "A \<noteq> B"
    and a: "users s (toString A) = Some ua"
    and bb: "users s (toString B) = Some ub"
    and nf: "B \<notin> set (following ua)"
    and nr: "A \<notin> set (followers ub)"
    and s1: "s1 = snd (follow now s tok b)"
    and s2: "s2 = snd (unfollow now' s1 tok b)"
  shows "status (fst (follow now s tok b)) = 200 \<and> status (fst (unfollow now' s1 tok b)) = 200 \<and>
         (\<exists>ua2 ub2. users s2 (toString A) = Some ua2 \<and> users s2 (toString B) = Some ub2 \<and>
            following ua2 = following ua \<and> followers ua2 = followers ua \<and>
            following ub2 = following ub \<and> followers ub2 = followers ub)"
proof -
  let ?ua' = "ua\<lparr>following := following ua @ [B], updatedAt := now\<rparr>"
  let ?ub' = "ub\<lparr>followers := followers ub @ [A], updatedAt := now\<rparr>"
  have nt: "t \<notin> set (map toString (following ua))" using not_in_texts [OF cb nf] .
  have nk: "toString B \<noteq> toString A" using ne toString_inj by auto
  have f: "follow now s tok b =
      (respond 200 True (Text msg_follow_ok),
       s\<lparr>users := (users s)(toString A \<mapsto> ?ua', toString B \<mapsto> ?ub')\<rparr>)"
    using follow_success [OF v cb ca ne a bb nt] .
  have a1: "users s1 (toString A) = Some ?ua'" using f s1 nk by simp
  have b1: "users s1 (toString B) = Some ?ub'" using f s1 by simp
  have m: "t \<in> set (map toString (following ?ua'))" using canon by simp
  have fa: "filter (\<lambda>y. y \<noteq> B) (following ?ua') = following ua"
    using nf by (auto simp: filter_id_conv)
  have fb: "filter (\<lambda>y. y \<noteq> A) (followers ?ub') = followers ub"
    using nr by (auto simp: filter_id_conv)
  have u: "unfollow now' s1 tok b =
      (respond 200 True (Text msg_unfollow_ok),
       s1\<lparr>users := (users s1)
          (toString A \<mapsto> ?ua'\<lparr>following := filter (\<lambda>y. y \<noteq> B) (following ?ua'), updatedAt := now'\<rparr>,
           toString B \<mapsto> ?ub'\<lparr>followers := filter (\<lambda>y. y \<noteq> A) (followers ?ub'), updatedAt := now'\<rparr>)\<rparr>)"
    using unfollow_success [OF v cb ca ne a1 b1 m] .
  have a2: "users s2 (toString A)
      = Some (?ua'\<lparr>following := filter (\<lambda>y. y \<noteq> B) (following ?ua'), updatedAt := now'\<rparr>)"
    using u s2 nk by simp
  have b2: "users s2 (toString B)
      = Some (?ub'\<lparr>followers := filter (\<lambda>y. y \<noteq> A) (followers ?ub'), updatedAt := now'\<rparr>)"
    using u s2 by simp
  show ?thesis
    using f u s1 a2 b2 fa fb by (simp add: respond_def)
qed

lemma following_bob_docs:
  "users following_bob (toString alice_id)
     = Some ((fresh_user (ascii ''alice''))\<lparr>following := [bob_id]\<rparr>)"
  "users following_bob (toString bob_id)
     = Some ((fresh_user (ascii ''bob''))\<lparr>followers := [alice_id]\<rparr>)"
  using alice_bob by (simp_all add: following_bob_def text_alice text_bob)

text \<open>
  Claim C8 at a failing input. Alice follows bob, and the two lists agree. Alice sends a
  follow request with bob's identifier written in upper case: it answers 200, because the
  already-following test compares texts. She then sends an unfollow request with the
  lower-case text: it answers 200 and pulls every copy. Afterwards alice's following list
  and bob's followers list are empty, while before the follow each held the other user.
  When B is not followed before the follow and the body carries the lower-case text, the
  two requests do restore the lists (\<open>roundtrip_when_not_followed\<close>).
\<close>

theorem follow_unfollow_not_restored:
  "map_option following (users following_bob alice) = Some [bob_id]
   \<and> map_option followers (users following_bob bob) = Some [alice_id]
   \<and> fst (follow 1 following_bob alice_token follow_bob_upper)
       = respond 200 True (Text msg_follow_ok)
   \<and> fst (unfollow 2 (snd (follow 1 following_bob alice_token follow_bob_upper))
             alice_token follow_bob)
       = respond 200 True (Text msg_unfollow_ok)
   \<and> map_option following
         (users (snd (unfollow 2 (snd (follow 1 following_bob alice_token follow_bob_upper))
                        alice_token follow_bob)) alice)
       = Some []
   \<and> map_option followers
         (users (snd (unfollow 2 (snd (follow 1 following_bob alice_token follow_bob_upper))
                        alice_token follow_bob)) bob)
       = Some []"
proof -
  let ?a0 = "(fresh_user (ascii ''alice''))\<lparr>following := [bob_id]\<rparr>"
  let ?b0 = "(fresh_user (ascii ''bob''))\<lparr>followers := [alice_id]\<rparr>"
  have p: "map_option following (users following_bob alice) = Some [bob_id]"
    "map_option followers (users following_bob bob) = Some [alice_id]"
    using alice_bob by (simp_all add: following_bob_def)
  have nf: "bob_upper \<notin> set (map toString (following ?a0))"
    using upper_differs(1) by (simp add: text_bob)
  let ?a1 = "?a0\<lparr>following := following ?a0 @ [bob_id], updatedAt := 1\<rparr>"
  let ?b1 = "?b0\<lparr>followers := followers ?b0 @ [alice_id], updatedAt := 1\<rparr>"
  let ?s1 = "following_bob\<lparr>users := (users following_bob)
                 (toString alice_id \<mapsto> ?a1, toString bob_id \<mapsto> ?b1)\<rparr>"
  have f: "follow 1 following_bob alice_token follow_bob_upper
      = (respond 200 True (Text msg_follow_ok), ?s1)"
    using follow_success [OF validate_follow_bob_upper cast_bob_upper alice_token_cast ids_differ
        following_bob_docs(1) following_bob_docs(2) nf, of 1] .
  have a1: "users ?s1 (toString alice_id) = Some ?a1"
    using alice_bob by (simp add: text_alice text_bob)
  have b1: "users ?s1 (toString bob_id) = Some ?b1" by simp
  have m: "bob \<in> set (map toString (following ?a1))" by (simp add: text_bob)
  have u: "unfollow 2 ?s1 alice_token follow_bob =
      (respond 200 True (Text msg_unfollow_ok),
       ?s1\<lparr>users := (users ?s1)
          (toString alice_id \<mapsto> ?a1\<lparr>following := filter (\<lambda>y. y \<noteq> bob_id) (following ?a1), updatedAt := 2\<rparr>,
           toString bob_id \<mapsto> ?b1\<lparr>followers := filter (\<lambda>y. y \<noteq> alice_id) (followers ?b1), updatedAt := 2\<rparr>)\<rparr>)"
    using unfollow_success [OF validate_follow_bob cast_bob alice_token_cast ids_differ a1 b1 m, of 2] .
  show ?thesis
    unfolding f using u p alice_bob by (simp add: text_alice text_bob)
qed

text \<open>
  Claim C10, as stated, fails twice. A follow request stamps both documents it writes:
  \<open>updatedAt\<close> of alice and of bob goes from 0 to the time of the request. And the stored
  counts are written by the profile query of the auth routes: after alice follows bob her
  stored \<open>followingCount\<close> is still 0, and the profile query then writes 1.
\<close>

theorem follow_stamps_and_me_counts:
  "map_option updatedAt (users two_users alice) = Some 0
   \<and> map_option updatedAt (users (snd (follow 7 two_users alice_token follow_bob)) alice) = Some 7
   \<and> map_option updatedAt (users (snd (follow 7 two_users alice_token follow_bob)) bob) = Some 7
   \<and> map_option followingCount (users (snd (follow 7 two_users alice_token follow_bob)) alice)
       = Some 0
   \<and> map_option followingCount
         (users (snd (me 9 (snd (follow 7 two_users alice_token follow_bob))
                        (Verified alice_token))) alice)
       = Some 1"
proof -
  have nf: "bob \<notin> set (map toString (following (fresh_user (ascii ''alice''))))"
    by (simp add: fresh_user_def)
  have f: "follow 7 two_users alice_token follow_bob =
     (respond 200 True (Text msg_follow_ok),
      two_users\<lparr>users := (users two_users)
         (alice \<mapsto> (fresh_user (ascii ''alice''))\<lparr>following := [bob_id], updatedAt := 7\<rparr>,
          bob \<mapsto> (fresh_user (ascii ''bob''))\<lparr>followers := [alice_id], updatedAt := 7\<rparr>)\<rparr>)"
    using follow_success [OF validate_follow_bob cast_bob alice_token_cast ids_differ
        two_users_docs(1) two_users_docs(2) nf, of 7]
    by (simp add: text_alice text_bob fresh_user_def)
  have z: "map_option updatedAt (users two_users alice) = Some 0"
    using alice_bob by (simp add: two_users_def fresh_user_def)
  show ?thesis
    unfolding f using z alice_bob cast_alice
    by (simp add: me_def alice_token_def text_alice fresh_user_def Let_def)
qed

lemma push_following_frame:
  "blogs (push_following now s i x) = blogs s \<and> comments (push_following now s i x) = comments s
   \<and> notifications (push_following now s i x) = notifications s
   \<and> (\<forall>k. case users s k of
            None \<Rightarrow> users (push_following now s i x) k = None
          | Some u \<Rightarrow>
              (\<exists>u'. users (push_following now s i x) k = Some u' \<and>
                 u'\<lparr>following := following u, updatedAt := updatedAt u\<rparr> = u \<and>
                 (k \<noteq> toString i \<longrightarrow> u' = u)))"
  by (auto simp: push_following_def split: option.splits)

lemma push_followers_frame:
  "blogs (push_followers now s i x) = blogs s \<and> comments (push_followers now s i x) = comments s
   \<and> notifications (push_followers now s i x) = notifications s
   \<and> (\<forall>k. case users s k of
            None \<Rightarrow> users (push_followers now s i x) k = None
          | Some u \<Rightarrow>
              (\<exists>u'. users (push_followers now s i x) k = Some u' \<and>
                 u'\<lparr>followers := followers u, updatedAt := updatedAt u\<rparr> = u \<and>
                 (k \<noteq> toString i \<longrightarrow> u' = u)))"
  by (auto simp: push_followers_def split: option.splits)

lemma pull_following_frame:
  "blogs (pull_following now s i x) = blogs s \<and> comments (pull_following now s i x) = comments s
   \<and> notifications (pull_following now s i x) = notifications s
   \<and> (\<forall>k. case users s k of
            None \<Rightarrow> users (pull_following now s i x) k = None
          | Some u \<Rightarrow>
              (\<exists>u'. users (pull_following now s i x) k = Some u' \<and>
                 u'\<lparr>following := following u, updatedAt := updatedAt u\<rparr> = u \<and>
                 (k \<noteq> toString i \<longrightarrow> u' = u)))"
  by (auto simp: pull_following_def split: option.splits)

lemma pull_followers_frame:
  "blogs (pull_followers now s i x) = blogs s \<and> comments (pull_followers now s i x) = comments s
   \<and> notifications (pull_followers now s i x) = notifications s
   \<and> (\<forall>k. case users s k of
            None \<Rightarrow> users (pull_followers now s i x) k = None
          | Some u \<Rightarrow>
              (\<exists>u'. users (pull_followers now s i x) k = Some u' \<and>
                 u'\<lparr>followers := followers u, updatedAt := updatedAt u\<rparr> = u \<and>
                 (k \<noteq> toString i \<longrightarrow> u' = u)))"
  by (auto simp: pull_followers_def split: option.splits)

lemma two_writes_framed:
  assumes v: "validate_userId_body b = Inr t" and cb: "castObjectId t = Some B"
    and ca: "castObjectId (userId tok) = Some A"
    and p1: "blogs s1 = blogs s \<and> comments s1 = comments s
   \<and> notifications s1 = notifications s
   \<and> (\<forall>k. case users s k of
            None \<Rightarrow> users s1 k = None
          | Some u \<Rightarrow>
              (\<exists>u'. users s1 k = Some u' \<and>
                 u'\<lparr>following := following u, updatedAt := updatedAt u\<rparr> = u \<and>
                 (k \<noteq> toString A \<longrightarrow> u' = u)))"
    and p2: "blogs s2 = blogs s1 \<and> comments s2 = comments s1
   \<and> notifications s2 = notifications s1
   \<and> (\<forall>k. case users s1 k of
            None \<Rightarrow> users s2 k = None
          | Some u \<Rightarrow>
              (\<exists>u'. users s2 k = Some u' \<and>
                 u'\<lparr>followers := followers u, updatedAt := updatedAt u\<rparr> = u \<and>
                 (k \<noteq> toString B \<longrightarrow> u' = u)))"
  shows "framed tok b s s2"
proof -
  have ak: "actor_key tok = Some (toString A)" using ca by (simp add: actor_key_def key_of_def)
  have tk: "target_key b = Some (toString B)" using v cb by (simp add: target_key_def key_of_def)
  have "case users s k of
            None \<Rightarrow> users s2 k = None
          | Some u \<Rightarrow>
              (\<exists>u'. users s2 k = Some u' \<and>
                 u'\<lparr>following := following u, followers := followers u,
                    updatedAt := updatedAt u\<rparr> = u \<and>
                 followingCount u' = followingCount u \<and> followersCount u' = followersCount u \<and>
                 (actor_key tok \<noteq> Some k \<longrightarrow> following u' = following u) \<and>
                 (target_key b \<noteq> Some k \<longrightarrow> followers u' = followers u) \<and>
                 (actor_key tok \<noteq> Some k \<and> target_key b \<noteq> Some k \<longrightarrow> u' = u))" for k
  proof (cases "users s k")
    case None
    then have "users s1 k = None" using p1 by (auto split: option.splits dest: spec [of _ k])
    then have "users s2 k = None" using p2 by (auto split: option.splits dest: spec [of _ k])
    then show ?thesis using None by simp
  next
    case (Some u)
    then obtain u1 where u1: "users s1 k = Some u1"
      "u1\<lparr>following := following u, updatedAt := updatedAt u\<rparr> = u"
      "k \<noteq> toString A \<longrightarrow> u1 = u"
      using p1 by (auto split: option.splits dest: spec [of _ k])
    then obtain u2 where u2: "users s2 k = Some u2"
      "u2\<lparr>followers := followers u1, updatedAt := updatedAt u1\<rparr> = u1"
      "k \<noteq> toString B \<longrightarrow> u2 = u1"
      using p2 by (auto split: option.splits dest: spec [of _ k])
    have e1: "u1 = u\<lparr>following := following u1, updatedAt := updatedAt u1\<rparr>"
      using u1(2) by (cases u1, cases u) auto
    have e2: "u2 = u1\<lparr>followers := followers u2, updatedAt := updatedAt u2\<rparr>"
      using u2(2) by (cases u2, cases u1) auto
    have e: "u2 = u\<lparr>following := following u1, followers := followers u2, updatedAt := updatedAt u2\<rparr>"
      using e1 e2 by (cases u2, cases u1, cases u) auto
    have q1: "u2\<lparr>following := following u, followers := followers u, updatedAt := updatedAt u\<rparr> = u"
      by (subst e) simp
    have q2: "followingCount u2 = followingCount u" "followersCount u2 = followersCount u"
      by (subst e, simp)+
    have q3: "following u2 = following u1" "followers u1 = followers u"
      using e e1 by (cases u2, cases u1, cases u, auto)+
    show ?thesis
      using Some u2(1) q1 q2 q3 u1(3) u2(3) ak tk by auto
  qed
  then show ?thesis using p1 p2 by (simp add: framed_def)
qed

lemma framed_refl: "framed tok b s s"
  by (auto simp: framed_def split: option.splits)

lemma follow_framed: "framed tok b s (snd (follow now s tok b))"
proof (cases "snd (follow now s tok b) = s")
  case True
  then show ?thesis using framed_refl by simp
next
  case False
  then obtain t B A where v: "validate_userId_body b = Inr t" and cb: "castObjectId t = Some B"
    and ca: "castObjectId (userId tok) = Some A"
    and r: "snd (follow now s tok b) = push_followers now (push_following now s A B) B A"
    by (auto simp: follow_def split: sum.splits option.splits if_splits)
  show ?thesis
    unfolding r
    using two_writes_framed [OF v cb ca push_following_frame push_followers_frame] .
qed

lemma unfollow_framed: "framed tok b s (snd (unfollow now s tok b))"
proof (cases "snd (unfollow now s tok b) = s")
  case True
  then show ?thesis using framed_refl by simp
next
  case False
  then obtain t B A where v: "validate_userId_body b = Inr t" and cb: "castObjectId t = Some B"
    and ca: "castObjectId (userId tok) = Some A"
    and r: "snd (unfollow now s tok b) = pull_followers now (pull_following now s A B) B A"
    by (auto simp: unfollow_def split: sum.splits option.splits if_splits)
  show ?thesis
    unfolding r
    using two_writes_framed [OF v cb ca pull_following_frame pull_followers_frame] .
qed

text \<open>
  Claim C10, amended. A follow or unfollow request, whatever it answers, leaves blogs,
  comments and notifications as they are, creates and deletes no user document, and in
  every user document changes at most the following list (only in the document of the
  token's user), the followers list (only in the document the body names) and the
  \<open>updatedAt\<close> stamp (only in these two documents). Every other field keeps its value,
  the stored \<open>followingCount\<close> and \<open>followersCount\<close> among them: follow and unfollow
  never write the stored counts.
\<close>

theorem follow_unfollow_frame:
  assumes "s' = snd (follow now s tok b) \<or> s' = snd (unfollow now s tok b)"
  shows "blogs s' = blogs s \<and> comments s' = comments s \<and> notifications s' = notifications s \<and>
     (\<forall>k. case users s k of
            None \<Rightarrow> users s' k = None
          | Some u \<Rightarrow>
              (\<exists>u'. users s' k = Some u' \<and>
                 u'\<lparr>following := following u, followers := followers u,
                    updatedAt := updatedAt u\<rparr> = u \<and>
                 followingCount u' = followingCount u \<and> followersCount u' = followersCount u \<and>
                 (actor_key tok \<noteq> Some k \<longrightarrow> following u' = following u) \<and>
                 (target_key b \<noteq> Some k \<longrightarrow> followers u' = followers u) \<and>
                 (actor_key tok \<noteq> Some k \<and> target_key b \<noteq> Some k \<longrightarrow> u' = u)))"
proof -
  have "framed tok b s s'"
    using assms follow_framed [of tok b s now] unfollow_framed [of tok b s now] by auto
  then show ?thesis unfolding framed_def .
qed

theorem follow_unfollow_frame_witness:
  "blogs (snd (follow 7 two_users alice_token follow_bob)) = blogs two_users \<and>
   (\<exists>u'. users (snd (follow 7 two_users alice_token follow_bob)) alice = Some u' \<and>
      u'\<lparr>following := [], followers := [], updatedAt := 0\<rparr> = fresh_user (ascii ''alice'') \<and>
      followingCount u' = 0 \<and> followersCount u' = 0 \<and> followers u' = [])"
proof -
  have a: "users two_users alice = Some (fresh_user (ascii ''alice''))"
    using alice_bob by (simp add: two_users_def)
  have tk: "target_key follow_bob \<noteq> Some alice"
    using validate_follow_bob cast_bob text_bob alice_bob
    by (simp add: target_key_def key_of_def)
  have fr: "following (fresh_user (ascii ''alice'')) = []"
    "followers (fresh_user (ascii ''alice'')) = []"
    "followingCount (fresh_user (ascii ''alice'')) = 0"
    "followersCount (fresh_user (ascii ''alice'')) = 0"
    "updatedAt (fresh_user (ascii ''alice'')) = 0"
    by (simp_all add: fresh_user_def)
  from follow_unfollow_frame [of "snd (follow 7 two_users alice_token follow_bob)" 7
      two_users alice_token follow_bob]
  have c: "blogs (snd (follow 7 two_users alice_token follow_bob)) = blogs two_users"
    and q: "\<forall>k. case users two_users k of
            None \<Rightarrow> users (snd (follow 7 two_users alice_token follow_bob)) k = None
          | Some u \<Rightarrow>
              (\<exists>u'. users (snd (follow 7 two_users alice_token follow_bob)) k = Some u' \<and>
                 u'\<lparr>following := following u, followers := followers u,
                    updatedAt := updatedAt u\<rparr> = u \<and>
                 followingCount u' = followingCount u \<and> followersCount u' = followersCount u \<and>
                 (actor_key alice_token \<noteq> Some k \<longrightarrow> following u' = following u) \<and>
                 (target_key follow_bob \<noteq> Some k \<longrightarrow> followers u' = followers u) \<and>
                 (actor_key alice_token \<noteq> Some k \<and> target_key follow_bob \<noteq> Some k \<longrightarrow> u' = u))"
    by simp_all
  from q [rule_format, of alice] show ?thesis
    using a tk fr c by auto
qed

section \<open>Properties of the comment routes\<close>

lemma findIndex_None_iff: "findIndex p xs = None \<longleftrightarrow> (\<forall>x \<in> set xs. \<not> p x)"
  by (induction xs) auto

lemma findIndex_eq_remove1:
  "findIndex (\<lambda>l. l = u) xs = Some i \<Longrightarrow> splice1 i xs = remove1 u xs"
proof (induction xs arbitrary: i)
  case Nil
  then show ?case by simp
next
  case (Cons x xs)
  show ?case
  proof (cases "x = u")
    case True
    with Cons.prems have "i = 0" by simp
    with True show ?thesis by (simp add: splice1_def)
  next
    case False
    with Cons.prems obtain j where j: "findIndex (\<lambda>l. l = u) xs = Some j" "i = Suc j"
      by auto
    from Cons.IH [OF j(1)] have "splice1 j xs = remove1 u xs" .
    with False j(2) show ?thesis by (simp add: splice1_def)
  qed
qed

lemma findIndex_Some_mem: "findIndex (\<lambda>l. l = u) xs = Some i \<Longrightarrow> u \<in> set xs"
  using findIndex_None_iff [of "\<lambda>l. l = u" xs] by auto

lemma findById_id: "findById s i = Some c \<Longrightarrow> comment_id c = i"
  by (auto simp: findById_def find_Some_iff)

lemma find_map_replace:
  "find (\<lambda>c. comment_id c = i) xs = Some c \<Longrightarrow> comment_id c' = i \<Longrightarrow>
   find (\<lambda>c. comment_id c = i) (map (\<lambda>d. if comment_id d = comment_id c' then c' else d) xs) = Some c'"
  by (induction xs) (auto split: if_splits)

lemma findById_save:
  "findById s i = Some c \<Longrightarrow> comment_id c' = i \<Longrightarrow> findById (save s c') i = Some c'"
  using find_map_replace [of i "comments s" c c'] by (simp add: findById_def save_def)

lemma Notification_create_comments:
  "Notification_create e s n = Some s' \<Longrightarrow>
     comments s' = comments s \<and> users s' = users s \<and> blogs s' = blogs s
     \<and> notifications s' = notifications s @ [n]"
  by (auto simp: Notification_create_def split: if_splits)

lemma like_remove:
  assumes v: "validate_like_body b = Inr cid"
    and f: "findById s cid = Some c"
    and m: "userId tok \<in> set (likes c)"
  shows "comment_like e s tok b =
     (\<lparr>status = 200, success = True, body_message = Some (Text msg_unlike_ok),
       data = Some \<lparr>data_likeCount = int (length (remove1 (userId tok) (likes c))),
                    data_isLiked = False\<rparr>\<rparr>,
      save s (unliked_comment c (userId tok)))"
proof -
  from m obtain i where i: "findIndex (\<lambda>like. like = userId tok) (likes c) = Some i"
    using findIndex_None_iff [of "\<lambda>like. like = userId tok" "likes c"] by (cases "findIndex (\<lambda>like. like = userId tok) (likes c)") auto
  have sp: "splice1 i (likes c) = remove1 (userId tok) (likes c)"
    using findIndex_eq_remove1 [OF i] .
  show ?thesis
    using v f i sp by (simp add: comment_like_def Let_def unliked_comment_def)
qed

lemma like_add:
  assumes v: "validate_like_body b = Inr cid"
    and f: "findById s cid = Some c"
    and m: "userId tok \<notin> set (likes c)"
  shows "fst (comment_like e s tok b) =
     \<lparr>status = 200, success = True, body_message = Some (Text msg_like_ok),
       data = Some \<lparr>data_likeCount = int (length (likes c)) + 1, data_isLiked = True\<rparr>\<rparr>"
    and "comments (snd (comment_like e s tok b)) = comments (save s (liked_comment c (userId tok)))"
    and "users (snd (comment_like e s tok b)) = users s"
    and "blogs (snd (comment_like e s tok b)) = blogs s"
proof -
  have i: "findIndex (\<lambda>like. like = userId tok) (likes c) = None"
    using m findIndex_None_iff [of "\<lambda>like. like = userId tok" "likes c"] by auto
  show "fst (comment_like e s tok b) =
     \<lparr>status = 200, success = True, body_message = Some (Text msg_like_ok),
       data = Some \<lparr>data_likeCount = int (length (likes c)) + 1, data_isLiked = True\<rparr>\<rparr>"
    using v f i by (simp add: comment_like_def Let_def)
  show "comments (snd (comment_like e s tok b)) = comments (save s (liked_comment c (userId tok)))"
    using v f i
    by (auto simp: comment_like_def Let_def liked_comment_def save_def
        split: option.splits dest: Notification_create_comments)
  show "users (snd (comment_like e s tok b)) = users s"
    using v f i
    by (auto simp: comment_like_def Let_def liked_comment_def save_def
        split: option.splits dest: Notification_create_comments)
  show "blogs (snd (comment_like e s tok b)) = blogs s"
    using v f i
    by (auto simp: comment_like_def Let_def liked_comment_def save_def
        split: option.splits dest: Notification_create_comments)
qed

lemma findById_cong: "comments s' = comments s \<Longrightarrow> findById s' i = findById s i"
  by (simp add: findById_def)

text \<open>
  Claim C3. Let a like request name a comment that exists and whose likes hold no user
  twice. After the request, and after the same user's second request, the stored
  \<open>likeCount\<close> of the comment is the number of users in its likes. The first request
  flips whether the user is among the likes and the second flips it back: after both, the
  set of likes and the number of likes are the original ones, the stored \<open>likeCount\<close>
  is the original one when it was right before, and the second response reports the
  original \<open>isLiked\<close> and number of likes.
\<close>

theorem toggle_like_twice:
  assumes v: "validate_like_body b = Inr cid"
    and f: "findById s cid = Some c"
    and d: "distinct (likes c)"
    and s1: "s1 = snd (comment_like e1 s tok b)"
    and s2: "s2 = snd (comment_like e2 s1 tok b)"
  shows "\<exists>c1 c2. findById s1 cid = Some c1 \<and> findById s2 cid = Some c2 \<and>
      likeCount c1 = int (card (set (likes c1))) \<and>
      likeCount c2 = int (card (set (likes c2))) \<and>
      distinct (likes c1) \<and> distinct (likes c2) \<and>
      (userId tok \<in> set (likes c1)) = (userId tok \<notin> set (likes c)) \<and>
      (userId tok \<in> set (likes c2)) = (userId tok \<in> set (likes c)) \<and>
      set (likes c2) = set (likes c) \<and>
      likeCount c2 = int (card (set (likes c))) \<and>
      (likeCount c = int (card (set (likes c))) \<longrightarrow> likeCount c2 = likeCount c) \<and>
      map_option data_isLiked (data (fst (comment_like e1 s tok b)))
        = Some (userId tok \<notin> set (likes c)) \<and>
      map_option data_isLiked (data (fst (comment_like e2 s1 tok b)))
        = Some (userId tok \<in> set (likes c)) \<and>
      map_option data_likeCount (data (fst (comment_like e2 s1 tok b)))
        = Some (int (card (set (likes c))))"
proof -
  let ?u = "userId tok"
  have cid: "comment_id c = cid" using f by (rule findById_id)
  have dc: "card (set (likes c)) = length (likes c)" using d by (rule distinct_card)
  show ?thesis
  proof (cases "?u \<in> set (likes c)")
    case False
    let ?c1 = "liked_comment c ?u"
    have id1: "comment_id ?c1 = cid" using cid by (simp add: liked_comment_def)
    have f1: "findById s1 cid = Some ?c1"
      using like_add(2) [OF v f False, of e1] findById_save [OF f id1] s1
      by (simp add: findById_def)
    have m1: "?u \<in> set (likes ?c1)" by (simp add: liked_comment_def)
    have d1: "distinct (likes ?c1)" using d False by (simp add: liked_comment_def)
    have r1: "fst (comment_like e1 s tok b) =
       \<lparr>status = 200, success = True, body_message = Some (Text msg_like_ok),
         data = Some \<lparr>data_likeCount = int (length (likes c)) + 1, data_isLiked = True\<rparr>\<rparr>"
      using like_add(1) [OF v f False] .
    have rm: "remove1 ?u (likes ?c1) = likes c"
      using False by (simp add: liked_comment_def remove1_append)
    let ?c2 = "unliked_comment ?c1 ?u"
    have e2: "comment_like e2 s1 tok b =
       (\<lparr>status = 200, success = True, body_message = Some (Text msg_unlike_ok),
         data = Some \<lparr>data_likeCount = int (length (likes c)), data_isLiked = False\<rparr>\<rparr>,
        save s1 ?c2)"
      using like_remove [OF v f1 m1, of e2] rm by simp
    have id2: "comment_id ?c2 = cid" using cid by (simp add: unliked_comment_def liked_comment_def)
    have f2: "findById s2 cid = Some ?c2"
      using e2 s2 findById_save [OF f1 id2] by simp
    have l2: "likes ?c2 = likes c" using rm by (simp add: unliked_comment_def)
    have k2: "likeCount ?c2 = int (length (likes c))" using rm by (simp add: unliked_comment_def)
    have k1: "likeCount ?c1 = int (card (set (likes ?c1)))"
      using d1 distinct_card [OF d1] by (simp add: liked_comment_def)
    show ?thesis
      using f1 f2 k1 k2 l2 d1 d m1 False r1 e2 dc by simp
  next
    case True
    let ?c1 = "unliked_comment c ?u"
    have e1: "comment_like e1 s tok b =
       (\<lparr>status = 200, success = True, body_message = Some (Text msg_unlike_ok),
         data = Some \<lparr>data_likeCount = int (length (remove1 ?u (likes c))), data_isLiked = False\<rparr>\<rparr>,
        save s ?c1)"
      using like_remove [OF v f True] .
    have id1: "comment_id ?c1 = cid" using cid by (simp add: unliked_comment_def)
    have f1: "findById s1 cid = Some ?c1"
      using e1 s1 findById_save [OF f id1] by simp
    have d1: "distinct (likes ?c1)" using d by (simp add: unliked_comment_def)
    have m1: "?u \<notin> set (likes ?c1)" using d by (simp add: unliked_comment_def)
    have k1: "likeCount ?c1 = int (card (set (likes ?c1)))"
      using distinct_card [OF d1] by (simp add: unliked_comment_def)
    let ?c2 = "liked_comment ?c1 ?u"
    have id2: "comment_id ?c2 = cid" using cid by (simp add: unliked_comment_def liked_comment_def)
    have f2: "findById s2 cid = Some ?c2"
      using like_add(2) [OF v f1 m1, of e2] findById_save [OF f1 id2] s2
      by (simp add: findById_def)
    have len: "length (likes ?c1) + 1 = length (likes c)"
      using True by (simp add: unliked_comment_def length_remove1) (metis One_nat_def Suc_pred length_pos_if_in_set)
    have r2: "fst (comment_like e2 s1 tok b) =
       \<lparr>status = 200, success = True, body_message = Some (Text msg_like_ok),
         data = Some \<lparr>data_likeCount = int (length (likes c)), data_isLiked = True\<rparr>\<rparr>"
      using like_add(1) [OF v f1 m1, of e2] len by simp
    have d2: "distinct (likes ?c2)" using d1 m1 by (simp add: liked_comment_def)
    have st: "set (likes ?c2) = set (likes c)"
      using True d by (auto simp: liked_comment_def unliked_comment_def)
    have k2: "likeCount ?c2 = int (length (likes c))"
      using len by (simp add: liked_comment_def)
    have m2: "?u \<in> set (likes ?c2)" by (simp add: liked_comment_def)
    show ?thesis
      using f1 f2 k1 k2 d1 d2 st m1 m2 True e1 r2 dc by simp
  qed
qed

lemma validate_like_c1: "validate_like_body like_c1 = Inr (ascii ''c1'')"
  by (simp add: like_c1_def validate_like_body_def joi_required_def joi_unknown_def ascii_def)

lemma forum_top1: "findById forum (ascii ''c1'') = Some top1"
  by (simp add: forum_def findById_def top1_def)

theorem toggle_like_twice_witness:
  "\<exists>c1 c2. findById (snd (comment_like working forum alice_token like_c1)) (ascii ''c1'') = Some c1 \<and>
      findById (snd (comment_like working (snd (comment_like working forum alice_token like_c1))
                       alice_token like_c1)) (ascii ''c1'') = Some c2 \<and>
      likeCount c1 = int (card (set (likes c1))) \<and>
      likeCount c2 = int (card (set (likes c2))) \<and>
      distinct (likes c1) \<and> distinct (likes c2) \<and>
      (userId alice_token \<in> set (likes c1)) = (userId alice_token \<notin> set (likes top1)) \<and>
      (userId alice_token \<in> set (likes c2)) = (userId alice_token \<in> set (likes top1)) \<and>
      set (likes c2) = set (likes top1) \<and>
      likeCount c2 = int (card (set (likes top1))) \<and>
      (likeCount top1 = int (card (set (likes top1))) \<longrightarrow> likeCount c2 = likeCount top1) \<and>
      map_option data_isLiked (data (fst (comment_like working forum alice_token like_c1)))
        = Some (userId alice_token \<notin> set (likes top1)) \<and>
      map_option data_isLiked (data (fst (comment_like working
           (snd (comment_like working forum alice_token like_c1)) alice_token like_c1)))
        = Some (userId alice_token \<in> set (likes top1)) \<and>
      map_option data_likeCount (data (fst (comment_like working
           (snd (comment_like working forum alice_token like_c1)) alice_token like_c1)))
        = Some (int (card (set (likes top1))))"
proof -
  have d: "distinct (likes top1)" by (simp add: top1_def)
  show ?thesis
    by (rule toggle_like_twice [OF validate_like_c1 forum_top1 d refl refl])
qed

lemma like_add_notifications:
  assumes v: "validate_like_body b = Inr cid"
    and f: "findById s cid = Some c"
    and m: "userId tok \<notin> set (likes c)"
  shows "notifications (snd (comment_like e s tok b)) =
     (if comment_user c \<noteq> userId tok
      then (case users s (userId tok) of
              None \<Rightarrow> notifications s
            | Some liker \<Rightarrow>
                (case blogs s (comment_blog c) of
                   None \<Rightarrow> notifications s
                 | Some blog \<Rightarrow>
                     if notification_store_fails e
                        \<or> \<not> notification_valid (like_notification c (userId tok) liker blog)
                     then notifications s
                     else notifications s @ [like_notification c (userId tok) liker blog]))
      else notifications s)"
proof -
  have i: "findIndex (\<lambda>like. like = userId tok) (likes c) = None"
    using m findIndex_None_iff [of "\<lambda>like. like = userId tok" "likes c"] by auto
  show ?thesis
    using v f i
    by (simp add: comment_like_def Let_def save_def like_notification_def
        Notification_create_def notification_valid_def split: option.splits)
qed

lemma like_other_notifications:
  assumes "validate_like_body b = Inl m \<or>
           (\<exists>cid. validate_like_body b = Inr cid \<and> findById s cid = None)"
  shows "snd (comment_like e s tok b) = s"
  using assms by (auto simp: comment_like_def)

text \<open>
  Claim C6. Let a like request name an existing comment. When the user is already among
  the likes (the request removes the like), no notification is created. When the user is
  the comment's author, none is created. When the user is not among the likes and not the
  author, has a user document, the comment's blog exists and the notification store
  accepts the record, exactly one notification is appended: of type like, to the
  comment's author, from the user. In every case the notifications afterwards are the
  old ones, or the old ones and one like notification to the author from the user, the
  latter only when the request added the like and the user is not the author.
\<close>

theorem like_notifies_only_on_add:
  assumes v: "validate_like_body b = Inr cid"
    and f: "findById s cid = Some c"
    and s': "s' = snd (comment_like e s tok b)"
  shows "(userId tok \<in> set (likes c) \<longrightarrow> notifications s' = notifications s)
    \<and> (userId tok = comment_user c \<longrightarrow> notifications s' = notifications s)
    \<and> (\<forall>liker blog.
          userId tok \<notin> set (likes c) \<and> userId tok \<noteq> comment_user c \<and>
          users s (userId tok) = Some liker \<and> blogs s (comment_blog c) = Some blog \<and>
          \<not> notification_store_fails e \<and>
          notification_valid (like_notification c (userId tok) liker blog)
          \<longrightarrow> notifications s' = notifications s @ [like_notification c (userId tok) liker blog])
    \<and> (notifications s' = notifications s \<or>
        (\<exists>n. notifications s' = notifications s @ [n] \<and> ntype n = Like_type \<and>
              recipient n = comment_user c \<and> sender n = userId tok \<and>
              userId tok \<notin> set (likes c) \<and> userId tok \<noteq> comment_user c))"
proof (cases "userId tok \<in> set (likes c)")
  case True
  have "s' = save s (unliked_comment c (userId tok))"
    using like_remove [OF v f True, of e] s' by simp
  then have "notifications s' = notifications s" by (simp add: save_def)
  then show ?thesis using True by simp
next
  case False
  note n = like_add_notifications [OF v f False, of e]
  show ?thesis
    using False unfolding s' n
    by (auto simp: like_notification_def split: option.splits)
qed

lemma alice_not_bob_forum: "userId alice_token \<noteq> comment_user top1"
  using alice_bob by (simp add: alice_token_def top1_def)

lemma forum_after_like:
  "findById (snd (comment_like working forum alice_token like_c1)) (ascii ''c1'')
     = Some (liked_comment top1 alice)"
proof -
  have m: "userId alice_token \<notin> set (likes top1)" by (simp add: top1_def)
  have i: "comment_id (liked_comment top1 alice) = ascii ''c1''"
    by (simp add: liked_comment_def top1_def)
  show ?thesis
    using like_add(2) [OF validate_like_c1 forum_top1 m, of working]
      findById_save [OF forum_top1 i]
    by (simp add: findById_def alice_token_def)
qed

theorem like_notifies_only_on_add_witness:
  "notifications (snd (comment_like working forum alice_token like_c1))
     = notifications forum @ [like_notification top1 alice (fresh_user (ascii ''alice''))
          \<lparr>blog_user = bob, blog_title = ascii ''hello''\<rparr>]
   \<and> notifications (snd (comment_like working
         (snd (comment_like working forum alice_token like_c1)) alice_token like_c1))
     = notifications (snd (comment_like working forum alice_token like_c1))"
proof -
  have u: "users forum (userId alice_token) = Some (fresh_user (ascii ''alice''))"
    using alice_bob by (simp add: forum_def alice_token_def)
  have g: "blogs forum (comment_blog top1) = Some \<lparr>blog_user = bob, blog_title = ascii ''hello''\<rparr>"
    by (simp add: forum_def top1_def)
  have m: "userId alice_token \<notin> set (likes top1)" by (simp add: top1_def)
  have w: "\<not> notification_store_fails working" by (simp add: working_def)
  have nv: "notification_valid (like_notification top1 (userId alice_token)
       (fresh_user (ascii ''alice'')) \<lparr>blog_user = bob, blog_title = ascii ''hello''\<rparr>)"
    by (simp add: notification_valid_def like_notification_def title_liked_def text_liked_def
        text_in_comment_def fresh_user_def ascii_def)
  have one: "notifications (snd (comment_like working forum alice_token like_c1))
     = notifications forum @ [like_notification top1 alice (fresh_user (ascii ''alice''))
          \<lparr>blog_user = bob, blog_title = ascii ''hello''\<rparr>]"
    using like_notifies_only_on_add [OF validate_like_c1 forum_top1 refl, of alice_token working]
      u g m w nv alice_not_bob_forum
    by (simp add: alice_token_def)
  have m2: "userId alice_token \<in> set (likes (liked_comment top1 alice))"
    by (simp add: liked_comment_def alice_token_def)
  have two: "notifications (snd (comment_like working
         (snd (comment_like working forum alice_token like_c1)) alice_token like_c1))
     = notifications (snd (comment_like working forum alice_token like_c1))"
    using like_notifies_only_on_add [OF validate_like_c1 forum_after_like refl, of alice_token working]
      m2 by simp
  show ?thesis using one two by simp
qed

lemma find_append_fresh:
  "i \<notin> set (map comment_id xs) \<Longrightarrow> comment_id c = i \<Longrightarrow>
   find (\<lambda>d. comment_id d = i) (xs @ [c]) = Some c"
  by (induction xs) auto

lemma create_result:
  assumes v: "validate_create_body b = Inr (c, blogId)"
    and ok: "isValid (validateContent c content_options)"
    and g: "blogs s blogId = Some blog"
    and fresh: "new_comment_id e \<notin> set (map comment_id (comments s))"
  shows "fst (comment_create e s tok b) =
      \<lparr>status = 200, success = True, body_message = Some (Text msg_comment_created),
        data = Some (new_comment (new_comment_id e) c (userId tok) blogId, users s (userId tok))\<rparr>"
    and "comments (snd (comment_create e s tok b)) =
           comments s @ [new_comment (new_comment_id e) c (userId tok) blogId]"
    and "users (snd (comment_create e s tok b)) = users s"
    and "blogs (snd (comment_create e s tok b)) = blogs s"
    and "notifications (snd (comment_create e s tok b)) =
      (if blog_user blog \<noteq> userId tok
       then (case users s (userId tok) of
               None \<Rightarrow> notifications s
             | Some commenter \<Rightarrow>
                 if notification_store_fails e \<or> \<not> notification_valid
                      (comment_notification blogId blog (userId tok) commenter (new_comment_id e))
                 then notifications s
                 else notifications s @
                      [comment_notification blogId blog (userId tok) commenter (new_comment_id e)])
       else notifications s)"
proof -
  let ?n = "new_comment (new_comment_id e) c (userId tok) blogId"
  have cc: "Comment_create s ?n = Some (s\<lparr>comments := comments s @ [?n]\<rparr>)"
    using fresh by (simp add: Comment_create_def new_comment_def)
  have fb: "findById (s\<lparr>comments := comments s @ [?n]\<rparr>) (new_comment_id e) = Some ?n"
    using find_append_fresh [OF fresh, of ?n] by (simp add: findById_def new_comment_def)
  note defs = comment_create_def Let_def new_comment_def [symmetric]
  show "fst (comment_create e s tok b) =
      \<lparr>status = 200, success = True, body_message = Some (Text msg_comment_created),
        data = Some (?n, users s (userId tok))\<rparr>"
    using v ok g cc fb by (simp add: defs) (simp add: new_comment_def)
  show "comments (snd (comment_create e s tok b)) = comments s @ [?n]"
    using v ok g cc
    by (simp add: defs Notification_create_def split: option.splits)
  show "users (snd (comment_create e s tok b)) = users s"
    using v ok g cc
    by (simp add: defs Notification_create_def split: option.splits)
  show "blogs (snd (comment_create e s tok b)) = blogs s"
    using v ok g cc
    by (simp add: defs Notification_create_def split: option.splits)
  show "notifications (snd (comment_create e s tok b)) =
      (if blog_user blog \<noteq> userId tok
       then (case users s (userId tok) of
               None \<Rightarrow> notifications s
             | Some commenter \<Rightarrow>
                 if notification_store_fails e \<or> \<not> notification_valid
                      (comment_notification blogId blog (userId tok) commenter (new_comment_id e))
                 then notifications s
                 else notifications s @
                      [comment_notification blogId blog (userId tok) commenter (new_comment_id e)])
       else notifications s)"
    using v ok g cc
    by (simp add: defs Notification_create_def comment_notification_def notification_valid_def
        split: option.splits)
qed

text \<open>
  Claim C5. Let a create request pass the body and content checks, name an existing blog,
  and get an unused identifier for the comment. Then the request answers 200 and the
  comment is appended. When the blog's owner is another user than the commenter, the
  commenter has a user document and the notification store accepts the record, exactly
  one notification is appended: of type comment, to the blog's owner, from the commenter.
  When the commenter owns the blog no notification is created.
\<close>

theorem comment_notifies_owner:
  assumes v: "validate_create_body b = Inr (c, blogId)"
    and ok: "isValid (validateContent c content_options)"
    and g: "blogs s blogId = Some blog"
    and fresh: "new_comment_id e \<notin> set (map comment_id (comments s))"
    and s': "s' = snd (comment_create e s tok b)"
  shows "status (fst (comment_create e s tok b)) = 200
    \<and> comments s' = comments s @ [new_comment (new_comment_id e) c (userId tok) blogId]
    \<and> (\<forall>commenter.
          blog_user blog \<noteq> userId tok \<and> users s (userId tok) = Some commenter \<and>
          \<not> notification_store_fails e \<and>
          notification_valid
            (comment_notification blogId blog (userId tok) commenter (new_comment_id e))
          \<longrightarrow> (\<exists>n. notifications s' = notifications s @ [n] \<and>
                   n = comment_notification blogId blog (userId tok) commenter (new_comment_id e) \<and>
                   ntype n = Comment_type \<and> recipient n = blog_user blog \<and>
                   sender n = userId tok))
    \<and> (blog_user blog = userId tok \<longrightarrow> notifications s' = notifications s)"
  using create_result(1) [OF v ok g fresh, of tok] create_result(2) [OF v ok g fresh, of tok]
    create_result(5) [OF v ok g fresh, of tok] s'
  by (simp add: comment_notification_def)

lemma clean_text_valid: "isValid (validateContent (ascii ''this is clean text'') content_options)"
proof -
  have ne: "ascii ''this is clean text'' \<noteq> []" by (simp add: ascii_def)
  have nw: "\<not> list_all isWhiteSpace (ascii ''this is clean text'')"
    by (simp add: ascii_def isWhiteSpace_def)
  have len: "length (ascii ''this is clean text'') = 18" by (simp add: ascii_def)
  have ck: "isValid (checkSensitiveContent (Some (ascii ''this is clean text'')) (Some True))"
    using check_clean_text strict_default [of "Some (ascii ''this is clean text'')"] by simp
  show ?thesis
    using ne nw len ck by (simp add: validateContent_def content_options_def Let_def)
qed

lemma blog1_ne: "blog1 \<noteq> []"
  by (simp add: blog1_def ascii_def)

lemma validate_clean_comment:
  "validate_create_body clean_comment = Inr (ascii ''this is clean text'', blog1)"
proof -
  have ne: "ascii ''this is clean text'' \<noteq> []" by (simp add: ascii_def)
  show ?thesis
    using ne blog1_ne
    by (simp add: clean_comment_def validate_create_body_def joi_required_def joi_unknown_def)
qed

lemma forum_blog1: "blogs forum blog1 = Some \<lparr>blog_user = bob, blog_title = ascii ''hello''\<rparr>"
  by (simp add: forum_def)

lemma forum_fresh: "new_comment_id working \<notin> set (map comment_id (comments forum))"
  by (simp add: working_def forum_def top1_def reply1_def reply2_def ascii_def)

theorem comment_notifies_owner_witness:
  "status (fst (comment_create working forum alice_token clean_comment)) = 200
   \<and> notifications (snd (comment_create working forum alice_token clean_comment))
       = notifications forum @
         [comment_notification blog1 \<lparr>blog_user = bob, blog_title = ascii ''hello''\<rparr> alice
            (fresh_user (ascii ''alice'')) (ascii ''n1'')]
   \<and> status (fst (comment_create working forum bob_token clean_comment)) = 200
   \<and> notifications (snd (comment_create working forum bob_token clean_comment))
       = notifications forum"
proof -
  have u: "users forum (userId alice_token) = Some (fresh_user (ascii ''alice''))"
    using alice_bob by (simp add: forum_def alice_token_def)
  have w: "\<not> notification_store_fails working" by (simp add: working_def)
  have nv: "notification_valid (comment_notification blog1
       \<lparr>blog_user = bob, blog_title = ascii ''hello''\<rparr> (userId alice_token)
       (fresh_user (ascii ''alice'')) (new_comment_id working))"
    by (simp add: notification_valid_def comment_notification_def title_new_comment_def
        text_commented_def text_close_def fresh_user_def ascii_def)
  have a: "status (fst (comment_create working forum alice_token clean_comment)) = 200
   \<and> notifications (snd (comment_create working forum alice_token clean_comment))
       = notifications forum @
         [comment_notification blog1 \<lparr>blog_user = bob, blog_title = ascii ''hello''\<rparr> alice
            (fresh_user (ascii ''alice'')) (ascii ''n1'')]"
    using comment_notifies_owner [OF validate_clean_comment clean_text_valid forum_blog1
        forum_fresh refl, of alice_token] u w nv alice_bob
    by (simp add: alice_token_def working_def)
  have b: "status (fst (comment_create working forum bob_token clean_comment)) = 200
   \<and> notifications (snd (comment_create working forum bob_token clean_comment))
       = notifications forum"
    using comment_notifies_owner [OF validate_clean_comment clean_text_valid forum_blog1
        forum_fresh refl, of bob_token]
    by (simp add: bob_token_def)
  show ?thesis using a b by simp
qed

lemma create_swallows:
  assumes "notification_store_fails e"
  shows "fst (comment_create e s tok b)
           = fst (comment_create (e\<lparr>notification_store_fails := False\<rparr>) s tok b)"
    and "comments (snd (comment_create e s tok b))
           = comments (snd (comment_create (e\<lparr>notification_store_fails := False\<rparr>) s tok b))"
    and "users (snd (comment_create e s tok b)) = users s"
    and "blogs (snd (comment_create e s tok b)) = blogs s"
    and "notifications (snd (comment_create e s tok b)) = notifications s"
  using assms
  by (auto simp: comment_create_def Let_def Notification_create_def Comment_create_def
      split: sum.splits option.splits prod.splits if_splits)

lemma reply_swallows:
  assumes "notification_store_fails e"
  shows "fst (comment_reply e s tok b)
           = fst (comment_reply (e\<lparr>notification_store_fails := False\<rparr>) s tok b)"
    and "comments (snd (comment_reply e s tok b))
           = comments (snd (comment_reply (e\<lparr>notification_store_fails := False\<rparr>) s tok b))"
    and "users (snd (comment_reply e s tok b)) = users s"
    and "blogs (snd (comment_reply e s tok b)) = blogs s"
    and "notifications (snd (comment_reply e s tok b)) = notifications s"
  using assms
  by (auto simp: comment_reply_def Let_def Notification_create_def Comment_create_def
      split: sum.splits option.splits prod.splits if_splits)

lemma like_swallows:
  assumes "notification_store_fails e"
  shows "fst (comment_like e s tok b)
           = fst (comment_like (e\<lparr>notification_store_fails := False\<rparr>) s tok b)"
    and "comments (snd (comment_like e s tok b))
           = comments (snd (comment_like (e\<lparr>notification_store_fails := False\<rparr>) s tok b))"
    and "users (snd (comment_like e s tok b)) = users s"
    and "blogs (snd (comment_like e s tok b)) = blogs s"
    and "notifications (snd (comment_like e s tok b)) = notifications s"
  using assms
  by (auto simp: comment_like_def Let_def Notification_create_def save_def
      split: sum.splits option.splits prod.splits if_splits)

lemma reply_result:
  assumes v: "validate_reply_body b = Inr (c, cid, rt)"
    and ok: "isValid (validateContent c content_options)"
    and f: "findById s cid = Some parent"
    and fresh: "new_comment_id e \<notin> set (map comment_id (comments s))"
  shows "fst (comment_reply e s tok b) =
      \<lparr>status = 200, success = True, body_message = Some (Text msg_reply_ok),
        data = Some (new_reply s (new_comment_id e) c (userId tok) parent rt,
                     users s (userId tok), users s (reply_target parent rt))\<rparr>"
    and "comments (snd (comment_reply e s tok b)) =
           comments s @ [new_reply s (new_comment_id e) c (userId tok) parent rt]"
proof -
  let ?n = "new_reply s (new_comment_id e) c (userId tok) parent rt"
  have cc: "Comment_create s ?n = Some (s\<lparr>comments := comments s @ [?n]\<rparr>)"
    using fresh by (simp add: Comment_create_def new_reply_def)
  have fb: "findById (s\<lparr>comments := comments s @ [?n]\<rparr>) (new_comment_id e) = Some ?n"
    using find_append_fresh [OF fresh, of ?n] by (simp add: findById_def new_reply_def)
  note defs = comment_reply_def Let_def new_reply_def [symmetric] reply_target_def [symmetric]
  show "fst (comment_reply e s tok b) =
      \<lparr>status = 200, success = True, body_message = Some (Text msg_reply_ok),
        data = Some (?n, users s (userId tok), users s (reply_target parent rt))\<rparr>"
    using v ok f cc fb by (simp add: defs) (simp add: new_reply_def)
  show "comments (snd (comment_reply e s tok b)) = comments s @ [?n]"
    using v ok f cc
    by (simp add: defs Notification_create_def split: option.splits)
qed

text \<open>
  Claim C7. When the notification store refuses every write, each of the three routes that
  write a notification (create, reply, like) answers exactly what it answers with a
  working notification store, leaves the comments exactly as it leaves them with a working
  store, and leaves the notifications as they were: the failure is caught, the response
  and the comment, reply or like are those of the run without the failure.
\<close>

theorem notification_failure_is_swallowed:
  assumes "notification_store_fails e"
  shows "fst (comment_create e s tok b)
           = fst (comment_create (e\<lparr>notification_store_fails := False\<rparr>) s tok b)
    \<and> comments (snd (comment_create e s tok b))
           = comments (snd (comment_create (e\<lparr>notification_store_fails := False\<rparr>) s tok b))
    \<and> notifications (snd (comment_create e s tok b)) = notifications s
    \<and> fst (comment_reply e s tok b)
           = fst (comment_reply (e\<lparr>notification_store_fails := False\<rparr>) s tok b)
    \<and> comments (snd (comment_reply e s tok b))
           = comments (snd (comment_reply (e\<lparr>notification_store_fails := False\<rparr>) s tok b))
    \<and> notifications (snd (comment_reply e s tok b)) = notifications s
    \<and> fst (comment_like e s tok b)
           = fst (comment_like (e\<lparr>notification_store_fails := False\<rparr>) s tok b)
    \<and> comments (snd (comment_like e s tok b))
           = comments (snd (comment_like (e\<lparr>notification_store_fails := False\<rparr>) s tok b))
    \<and> notifications (snd (comment_like e s tok b)) = notifications s"
  using create_swallows(1,2,5) [OF assms, of s tok b] reply_swallows(1,2,5) [OF assms, of s tok b]
    like_swallows(1,2,5) [OF assms, of s tok b]
  by simp

lemma validate_clean_reply:
  "validate_reply_body clean_reply = Inr (ascii ''this is clean text'', ascii ''c1'', None)"
proof -
  have ne: "ascii ''this is clean text'' \<noteq> []" "ascii ''c1'' \<noteq> []"
    by (simp_all add: ascii_def)
  show ?thesis
    using ne blog1_ne
    by (simp add: clean_reply_def validate_reply_body_def joi_required_def joi_optional_def
        joi_unknown_def)
qed

lemma failing_fresh: "new_comment_id failing \<notin> set (map comment_id (comments forum))"
  by (simp add: failing_def forum_def top1_def reply1_def reply2_def ascii_def)

theorem notification_failure_is_swallowed_witness:
  "fst (comment_create failing forum alice_token clean_comment)
      = fst (comment_create working forum alice_token clean_comment)
   \<and> status (fst (comment_create failing forum alice_token clean_comment)) = 200
   \<and> success (fst (comment_create failing forum alice_token clean_comment))
   \<and> comments (snd (comment_create failing forum alice_token clean_comment))
      = comments forum @ [new_comment (ascii ''n1'') (ascii ''this is clean text'') alice blog1]
   \<and> notifications (snd (comment_create failing forum alice_token clean_comment)) = []
   \<and> fst (comment_reply failing forum alice_token clean_reply)
      = fst (comment_reply working forum alice_token clean_reply)
   \<and> status (fst (comment_reply failing forum alice_token clean_reply)) = 200
   \<and> success (fst (comment_reply failing forum alice_token clean_reply))
   \<and> comments (snd (comment_reply failing forum alice_token clean_reply))
      = comments forum @ [new_reply forum (ascii ''n1'') (ascii ''this is clean text'') alice top1 None]
   \<and> notifications (snd (comment_reply failing forum alice_token clean_reply)) = []
   \<and> fst (comment_like failing forum alice_token like_c1)
      = fst (comment_like working forum alice_token like_c1)
   \<and> status (fst (comment_like failing forum alice_token like_c1)) = 200
   \<and> success (fst (comment_like failing forum alice_token like_c1))
   \<and> findById (snd (comment_like failing forum alice_token like_c1)) (ascii ''c1'')
      = Some (liked_comment top1 alice)
   \<and> notifications (snd (comment_like failing forum alice_token like_c1)) = []"
proof -
  have fl: "notification_store_fails failing" by (simp add: failing_def)
  have fw: "failing\<lparr>notification_store_fails := False\<rparr> = working"
    by (simp add: failing_def working_def)
  have nf: "notifications forum = []" by (simp add: forum_def)
  note sw = notification_failure_is_swallowed [OF fl, of forum alice_token, unfolded fw nf]
  have c1: "status (fst (comment_create failing forum alice_token clean_comment)) = 200
     \<and> success (fst (comment_create failing forum alice_token clean_comment))"
    using create_result(1) [OF validate_clean_comment clean_text_valid forum_blog1 failing_fresh,
        of alice_token] by simp
  have c2: "comments (snd (comment_create failing forum alice_token clean_comment))
      = comments forum @ [new_comment (ascii ''n1'') (ascii ''this is clean text'') alice blog1]"
    using create_result(2) [OF validate_clean_comment clean_text_valid forum_blog1 failing_fresh,
        of alice_token] by (simp add: failing_def alice_token_def)
  have r1: "status (fst (comment_reply failing forum alice_token clean_reply)) = 200
     \<and> success (fst (comment_reply failing forum alice_token clean_reply))"
    using reply_result(1) [OF validate_clean_reply clean_text_valid forum_top1 failing_fresh,
        of alice_token] by simp
  have r2: "comments (snd (comment_reply failing forum alice_token clean_reply))
      = comments forum @ [new_reply forum (ascii ''n1'') (ascii ''this is clean text'') alice top1 None]"
    using reply_result(2) [OF validate_clean_reply clean_text_valid forum_top1 failing_fresh,
        of alice_token] by (simp add: failing_def alice_token_def)
  have m: "userId alice_token \<notin> set (likes top1)" by (simp add: top1_def)
  have l1: "status (fst (comment_like failing forum alice_token like_c1)) = 200
     \<and> success (fst (comment_like failing forum alice_token like_c1))"
    using like_add(1) [OF validate_like_c1 forum_top1 m, of failing] by simp
  have i: "comment_id (liked_comment top1 alice) = ascii ''c1''"
    by (simp add: liked_comment_def top1_def)
  have l2: "findById (snd (comment_like failing forum alice_token like_c1)) (ascii ''c1'')
      = Some (liked_comment top1 alice)"
    using like_add(2) [OF validate_like_c1 forum_top1 m, of failing]
      findById_save [OF forum_top1 i]
    by (simp add: findById_def alice_token_def)
  show ?thesis
    using sw [of clean_comment] sw [of clean_reply] sw [of like_c1] c1 c2 r1 r2 l1 l2
    by simp
qed

lemma unique_same:
  assumes "unique_ids s" "c \<in> set (comments s)" "d \<in> set (comments s)"
    "comment_id c = comment_id d"
  shows "c = d"
  using assms by (auto simp: unique_ids_def distinct_map inj_on_def)

lemma findById_mem: "findById s i = Some c \<Longrightarrow> c \<in> set (comments s) \<and> comment_id c = i"
  by (auto simp: findById_def find_Some_iff)

lemma parents_topD:
  assumes "parents_top s" "r \<in> set (comments s)" "parentId r = Some p"
  shows "\<exists>c \<in> set (comments s). comment_id c = p \<and> parentId c = None"
  using assms by (auto simp: parents_top_def is_top_id_def list_all_iff list_ex_iff)

lemma threaded_two_level:
  assumes "threaded s"
  shows "two_level s"
proof -
  have u: "unique_ids s" and p: "parents_top s" using assms by (simp_all add: threaded_def)
  have "\<not> is_reply_id s q" if r: "r \<in> set (comments s)" and q: "parentId r = Some q" for r q
  proof
    assume "is_reply_id s q"
    then obtain d where d: "d \<in> set (comments s)" "comment_id d = q" "parentId d \<noteq> None"
      by (auto simp: is_reply_id_def list_ex_iff)
    from parents_topD [OF p r q] obtain c where
      c: "c \<in> set (comments s)" "comment_id c = q" "parentId c = None" by blast
    have "c = d" using unique_same [OF u c(1) d(1)] c(2) d(2) by simp
    then show False using c(3) d(3) by simp
  qed
  then show ?thesis
    by (auto simp: two_level_def list_all_iff split: option.splits)
qed

lemma reply_has_no_replies:
  assumes t: "threaded s" and f: "findById s i = Some c" and r: "parentId c \<noteq> None"
  shows "replies s i = []"
proof -
  have u: "unique_ids s" and p: "parents_top s" using t by (simp_all add: threaded_def)
  have c: "c \<in> set (comments s)" "comment_id c = i" using findById_mem [OF f] by simp_all
  have "parentId d \<noteq> Some i" if d: "d \<in> set (comments s)" for d
  proof
    assume "parentId d = Some i"
    from parents_topD [OF p d this] obtain c' where
      c': "c' \<in> set (comments s)" "comment_id c' = i" "parentId c' = None" by blast
    have "c' = c" using unique_same [OF u c'(1) c(1)] c'(2) c(2) by simp
    then show False using c'(3) r by simp
  qed
  then show ?thesis by (simp add: replies_def filter_empty_conv)
qed

lemma length_filter_disj:
  "(\<forall>x \<in> set xs. \<not> (P x \<and> Q x)) \<Longrightarrow>
   length (filter (\<lambda>x. P x \<or> Q x) xs) = length (filter P xs) + length (filter Q xs)"
  by (induction xs) auto

lemma length_filter_unique:
  "distinct (map f xs) \<Longrightarrow> x \<in> set xs \<Longrightarrow> length (filter (\<lambda>d. f d = f x) xs) = 1"
proof (induction xs)
  case Nil
  then show ?case by simp
next
  case (Cons a xs)
  show ?case
  proof (cases "a = x")
    case True
    have "filter (\<lambda>d. f d = f x) xs = []"
      using Cons.prems(1) True by (auto simp: filter_empty_conv image_iff)
    then show ?thesis using True by simp
  next
    case False
    then have x: "x \<in> set xs" using Cons.prems(2) by simp
    have "f a \<noteq> f x" using Cons.prems(1) x by auto
    then show ?thesis using Cons.IH x Cons.prems(1) by simp
  qed
qed

lemma removed_count:
  assumes u: "unique_ids s" and f: "findById s i = Some c"
    and nr: "\<forall>d \<in> set (comments s). \<not> (comment_id d = i \<and> parentId d = Some i)"
  shows "length (comments s) =
     length (filter (\<lambda>d. \<not> (comment_id d = i \<or> parentId d = Some i)) (comments s))
       + length (replies s i) + 1"
proof -
  have c: "c \<in> set (comments s)" "comment_id c = i" using findById_mem [OF f] by simp_all
  have one: "length (filter (\<lambda>d. comment_id d = i) (comments s)) = 1"
    using length_filter_unique [of comment_id "comments s" c] u c by (simp add: unique_ids_def)
  have both: "length (filter (\<lambda>d. comment_id d = i \<or> parentId d = Some i) (comments s))
      = 1 + length (replies s i)"
    using length_filter_disj [of "comments s" "\<lambda>d. comment_id d = i" "\<lambda>d. parentId d = Some i"]
      nr one by (simp add: replies_def)
  have "length (comments s) =
      length (filter (\<lambda>d. comment_id d = i \<or> parentId d = Some i) (comments s))
      + length (filter (\<lambda>d. \<not> (comment_id d = i \<or> parentId d = Some i)) (comments s))"
    using sum_length_filter_compl [of "\<lambda>d. comment_id d = i \<or> parentId d = Some i" "comments s"]
    by simp
  then show ?thesis using both by simp
qed

lemma delete_success:
  assumes "comment_delete s tok i = (r, s')" and "status r = 200"
  shows "comments s' = filter (\<lambda>d. \<not> (comment_id d = i \<or> parentId d = Some i)) (comments s)"
    and "jwt_role tok = Admin" and "findById s i \<noteq> None"
  using assms
  by (auto simp: comment_delete_def requireCommentAuthor_def respond_def author_differs_def
      split: option.splits if_splits sum.splits)

text \<open>
  Claim C4. Let the comment collection have unique identifiers and top-level parents only
  (the routes keep this: \<open>create_keeps_threaded\<close>, \<open>reply_keeps_threaded\<close>,
  \<open>like_keeps_threaded\<close>, \<open>delete_keeps_threaded\<close>), and let a delete request for an
  existing comment answer 200. If the comment is top-level and has N replies, the
  collection loses exactly N + 1 records: the comment and the comments whose \<open>parentId\<close>
  is its identifier. If the comment is a reply, no comment has it as parent and the
  collection loses exactly 1 record, the reply.
\<close>

theorem delete_removes_thread:
  assumes t: "threaded s"
    and f: "findById s i = Some c"
    and d: "comment_delete s tok i = (r, s')"
    and ok: "status r = 200"
  shows "(parentId c = None \<longrightarrow>
            length (comments s) = length (comments s') + (length (replies s i) + 1) \<and>
            comments s' = filter (\<lambda>d. comment_id d \<noteq> i \<and> parentId d \<noteq> Some i) (comments s))
       \<and> (parentId c \<noteq> None \<longrightarrow>
            replies s i = [] \<and>
            length (comments s) = length (comments s') + 1 \<and>
            comments s' = filter (\<lambda>d. comment_id d \<noteq> i) (comments s))"
proof -
  have u: "unique_ids s" using t by (simp add: threaded_def)
  have c: "c \<in> set (comments s)" "comment_id c = i" using findById_mem [OF f] by simp_all
  have cs: "comments s' = filter (\<lambda>d. \<not> (comment_id d = i \<or> parentId d = Some i)) (comments s)"
    using delete_success(1) [OF d ok] .
  have nr: "\<forall>d \<in> set (comments s). \<not> (comment_id d = i \<and> parentId d = Some i)"
  proof (intro ballI notI)
    fix x assume x: "x \<in> set (comments s)" and b: "comment_id x = i \<and> parentId x = Some i"
    have xc: "x = c" using unique_same [OF u x c(1)] b c(2) by simp
    have "replies s i = []"
      using reply_has_no_replies [OF t f] xc b by simp
    then show False using x b by (auto simp: replies_def filter_empty_conv)
  qed
  have cnt: "length (comments s) = length (comments s') + length (replies s i) + 1"
    using removed_count [OF u f nr] cs by simp
  show ?thesis
  proof (intro conjI impI)
    assume "parentId c = None"
    show "length (comments s) = length (comments s') + (length (replies s i) + 1)"
      using cnt by simp
    show "comments s' = filter (\<lambda>d. comment_id d \<noteq> i \<and> parentId d \<noteq> Some i) (comments s)"
      using cs by simp
  next
    assume n: "parentId c \<noteq> None"
    show e: "replies s i = []" using reply_has_no_replies [OF t f n] .
    show "length (comments s) = length (comments s') + 1" using cnt e by simp
    have "\<forall>x \<in> set (comments s). parentId x \<noteq> Some i"
      using e by (auto simp: replies_def filter_empty_conv)
    then show "comments s' = filter (\<lambda>d. comment_id d \<noteq> i) (comments s)"
      unfolding cs by (intro filter_cong) auto
  qed
qed

lemma threaded_iff:
  "threaded s \<longleftrightarrow>
     distinct (map comment_id (comments s)) \<and>
     (\<forall>r \<in> set (comments s). \<forall>p. parentId r = Some p \<longrightarrow>
        (\<exists>c \<in> set (comments s). comment_id c = p \<and> parentId c = None))"
  by (auto simp: threaded_def unique_ids_def parents_top_def is_top_id_def list_all_iff
      list_ex_iff split: option.splits)

lemma threaded_cong: "comments s' = comments s \<Longrightarrow> threaded s' = threaded s"
  by (simp add: threaded_iff)

lemma threaded_append_top:
  assumes "threaded s" "comment_id c \<notin> set (map comment_id (comments s))" "parentId c = None"
    "comments s' = comments s @ [c]"
  shows "threaded s'"
  using assms unfolding threaded_iff by auto

lemma threaded_append_reply:
  assumes "threaded s" "comment_id c \<notin> set (map comment_id (comments s))"
    "parentId c = Some p" "\<exists>d \<in> set (comments s). comment_id d = p \<and> parentId d = None"
    "comments s' = comments s @ [c]"
  shows "threaded s'"
  using assms unfolding threaded_iff by auto

lemma threaded_save:
  assumes t: "threaded s" and f: "findById s i = Some c"
    and i: "comment_id c' = i" and p: "parentId c' = parentId c"
  shows "threaded (save s c')"
proof -
  have c: "c \<in> set (comments s)" "comment_id c = i" using findById_mem [OF f] by simp_all
  let ?g = "\<lambda>d. if comment_id d = comment_id c' then c' else d"
  have ids: "map comment_id (comments (save s c')) = map comment_id (comments s)"
    by (simp add: save_def)
  have d0: "distinct (map comment_id (comments s))" using t threaded_iff by blast
  have same: "comment_id (?g d) = comment_id d" for d by simp
  have par: "parentId (?g d) = parentId d" if "d \<in> set (comments s)" for d
  proof (cases "comment_id d = comment_id c'")
    case True
    have "d = c"
      using t that c True i by (auto simp: threaded_iff distinct_map inj_on_def)
    then show ?thesis using True p by simp
  next
    case False
    then show ?thesis by simp
  qed
  have d: "distinct (map comment_id (comments (save s c')))"
    unfolding ids by (rule d0)
  have q: "\<exists>x \<in> set (comments (save s c')). comment_id x = pp \<and> parentId x = None"
    if r: "r \<in> set (comments (save s c'))" and rp: "parentId r = Some pp" for r pp
  proof -
    from r obtain r0 where r0: "r0 \<in> set (comments s)" "r = ?g r0" by (auto simp: save_def)
    then have "parentId r0 = Some pp" using par [OF r0(1)] rp by simp
    then obtain x0 where x0: "x0 \<in> set (comments s)" "comment_id x0 = pp" "parentId x0 = None"
      using t r0(1) unfolding threaded_iff by blast
    have "?g x0 \<in> set (comments (save s c'))" using x0(1) by (simp add: save_def)
    moreover have "comment_id (?g x0) = pp" using same x0(2) by simp
    moreover have "parentId (?g x0) = None" using par [OF x0(1)] x0(3) by simp
    ultimately show ?thesis by blast
  qed
  show ?thesis unfolding threaded_iff using d q by blast
qed

lemma threaded_delete:
  assumes t: "threaded s"
    and c: "comments s' = filter (\<lambda>d. \<not> (comment_id d = i \<or> parentId d = Some i)) (comments s)"
  shows "threaded s'"
proof -
  have "distinct (map comment_id (comments s))" using t threaded_iff by blast
  then have d: "distinct (map comment_id (comments s'))"
    unfolding c by (rule distinct_map_filter)
  have q: "\<exists>x \<in> set (comments s'). comment_id x = p \<and> parentId x = None"
    if r: "r \<in> set (comments s')" and rp: "parentId r = Some p" for r p
  proof -
    have r0: "r \<in> set (comments s)" "p \<noteq> i" using r rp unfolding c by auto
    then obtain x where x: "x \<in> set (comments s)" "comment_id x = p" "parentId x = None"
      using t rp unfolding threaded_iff by blast
    then have "x \<in> set (comments s')" using r0(2) unfolding c by simp
    then show ?thesis using x by blast
  qed
  show ?thesis unfolding threaded_iff using d q by blast
qed

lemma create_comments_cases:
  "comments (snd (comment_create e s tok b)) = comments s \<or>
   (new_comment_id e \<notin> set (map comment_id (comments s)) \<and>
    (\<exists>c blogId. comments (snd (comment_create e s tok b))
             = comments s @ [new_comment (new_comment_id e) c (userId tok) blogId]))"
proof (cases "validate_create_body b")
  case (Inl m)
  then show ?thesis by (simp add: comment_create_def)
next
  case (Inr p)
  obtain c blogId where p: "p = (c, blogId)" by (cases p)
  note v = Inr [unfolded p]
  show ?thesis
  proof (cases "isValid (validateContent c content_options)")
    case False
    then show ?thesis using v by (simp add: comment_create_def)
  next
    case ok: True
    show ?thesis
    proof (cases "blogs s blogId")
      case None
      then show ?thesis using v ok by (simp add: comment_create_def)
    next
      case (Some blog)
      show ?thesis
      proof (cases "new_comment_id e \<in> set (map comment_id (comments s))")
        case True
        then show ?thesis using v ok Some by (simp add: comment_create_def Comment_create_def)
      next
        case False
        then show ?thesis using create_result(2) [OF v ok Some False, of tok] by blast
      qed
    qed
  qed
qed

lemma reply_comments_cases:
  "comments (snd (comment_reply e s tok b)) = comments s \<or>
   (new_comment_id e \<notin> set (map comment_id (comments s)) \<and>
    (\<exists>c cid rt parent. findById s cid = Some parent \<and>
        comments (snd (comment_reply e s tok b))
             = comments s @ [new_reply s (new_comment_id e) c (userId tok) parent rt]))"
proof (cases "validate_reply_body b")
  case (Inl m)
  then show ?thesis by (simp add: comment_reply_def)
next
  case (Inr p)
  obtain c cid rt where p: "p = (c, cid, rt)" by (cases p)
  note v = Inr [unfolded p]
  show ?thesis
  proof (cases "isValid (validateContent c content_options)")
    case False
    then show ?thesis using v by (simp add: comment_reply_def)
  next
    case ok: True
    show ?thesis
    proof (cases "findById s cid")
      case None
      then show ?thesis using v ok by (simp add: comment_reply_def)
    next
      case (Some parent)
      show ?thesis
      proof (cases "new_comment_id e \<in> set (map comment_id (comments s))")
        case True
        then show ?thesis
          using v ok Some by (simp add: comment_reply_def Comment_create_def Let_def)
      next
        case False
        then show ?thesis using reply_result(2) [OF v ok Some False, of tok] Some by blast
      qed
    qed
  qed
qed

lemma like_comments_cases:
  "comments (snd (comment_like e s tok b)) = comments s \<or>
   (\<exists>cid c c'. findById s cid = Some c \<and> comment_id c' = comment_id c \<and>
       parentId c' = parentId c \<and>
       comments (snd (comment_like e s tok b)) = comments (save s c'))"
proof (cases "validate_like_body b")
  case (Inl m)
  then show ?thesis by (simp add: comment_like_def)
next
  case (Inr cid)
  show ?thesis
  proof (cases "findById s cid")
    case None
    then show ?thesis using Inr by (simp add: comment_like_def)
  next
    case (Some c)
    show ?thesis
    proof (cases "userId tok \<in> set (likes c)")
      case True
      have "comments (snd (comment_like e s tok b)) = comments (save s (unliked_comment c (userId tok)))"
        using like_remove [OF Inr Some True, of e] by simp
      moreover have "comment_id (unliked_comment c (userId tok)) = comment_id c"
        "parentId (unliked_comment c (userId tok)) = parentId c"
        by (simp_all add: unliked_comment_def)
      ultimately show ?thesis using Some by blast
    next
      case False
      have "comments (snd (comment_like e s tok b)) = comments (save s (liked_comment c (userId tok)))"
        using like_add(2) [OF Inr Some False, of e] by simp
      moreover have "comment_id (liked_comment c (userId tok)) = comment_id c"
        "parentId (liked_comment c (userId tok)) = parentId c"
        by (simp_all add: liked_comment_def)
      ultimately show ?thesis using Some by blast
    qed
  qed
qed

lemma create_keeps_threaded:
  assumes "threaded s"
  shows "threaded (snd (comment_create e s tok b))"
proof (cases "comments (snd (comment_create e s tok b)) = comments s")
  case True
  then show ?thesis using assms threaded_cong by blast
next
  case False
  then obtain c blogId where
    fr: "new_comment_id e \<notin> set (map comment_id (comments s))"
    and cs: "comments (snd (comment_create e s tok b))
             = comments s @ [new_comment (new_comment_id e) c (userId tok) blogId]"
    using create_comments_cases [of e s tok b] by blast
  show ?thesis
    using threaded_append_top [OF assms _ _ cs] fr by (simp add: new_comment_def)
qed

lemma reply_keeps_threaded:
  assumes "threaded s"
  shows "threaded (snd (comment_reply e s tok b))"
proof (cases "comments (snd (comment_reply e s tok b)) = comments s")
  case True
  then show ?thesis using assms threaded_cong by blast
next
  case False
  then obtain c cid rt parent where
    fr: "new_comment_id e \<notin> set (map comment_id (comments s))"
    and f: "findById s cid = Some parent"
    and cs: "comments (snd (comment_reply e s tok b))
             = comments s @ [new_reply s (new_comment_id e) c (userId tok) parent rt]"
    using reply_comments_cases [of e s tok b] by blast
  have pm: "parent \<in> set (comments s)" "comment_id parent = cid"
    using findById_mem [OF f] by simp_all
  let ?p = "case parentId parent of Some p \<Rightarrow> p | None \<Rightarrow> comment_id parent"
  have top: "\<exists>d \<in> set (comments s). comment_id d = ?p \<and> parentId d = None"
  proof (cases "parentId parent")
    case None
    then show ?thesis using pm by auto
  next
    case (Some p)
    then show ?thesis using assms pm(1) unfolding threaded_iff by auto
  qed
  have pp: "parentId (new_reply s (new_comment_id e) c (userId tok) parent rt) = Some ?p"
    by (simp add: new_reply_def)
  have ii: "comment_id (new_reply s (new_comment_id e) c (userId tok) parent rt)
       \<notin> set (map comment_id (comments s))"
    using fr by (simp add: new_reply_def)
  show ?thesis
    using threaded_append_reply [OF assms ii pp top cs] .
qed

lemma like_keeps_threaded:
  assumes "threaded s"
  shows "threaded (snd (comment_like e s tok b))"
proof (cases "comments (snd (comment_like e s tok b)) = comments s")
  case True
  then show ?thesis using assms threaded_cong by blast
next
  case False
  then obtain cid c c' where
    f: "findById s cid = Some c" and i: "comment_id c' = comment_id c"
    and p: "parentId c' = parentId c"
    and cs: "comments (snd (comment_like e s tok b)) = comments (save s c')"
    using like_comments_cases [of e s tok b] by blast
  have "threaded (save s c')"
    using threaded_save [OF assms f _ p] i findById_mem [OF f] by simp
  then show ?thesis using threaded_cong [OF cs] by simp
qed

lemma delete_keeps_threaded:
  assumes "threaded s"
  shows "threaded (snd (comment_delete s tok i))"
proof (cases "comments (snd (comment_delete s tok i)) = comments s")
  case True
  then show ?thesis using assms threaded_cong by blast
next
  case False
  then have "comments (snd (comment_delete s tok i))
      = filter (\<lambda>d. \<not> (comment_id d = i \<or> parentId d = Some i)) (comments s)"
    by (auto simp: comment_delete_def split: sum.splits)
  then show ?thesis using threaded_delete [OF assms] by blast
qed

lemma empty_threaded: "comments s = [] \<Longrightarrow> threaded s"
  by (simp add: threaded_iff)

lemma forum_threaded: "threaded forum"
  by (simp add: threaded_def unique_ids_def parents_top_def is_top_id_def forum_def
      top1_def reply1_def reply2_def ascii_def)

lemma forum_reply1: "findById forum (ascii ''r1'') = Some reply1"
  by (simp add: forum_def findById_def top1_def reply1_def ascii_def)

lemma forum_delete_status:
  "status (fst (comment_delete forum carol_token (ascii ''c1''))) = 200"
  "status (fst (comment_delete forum carol_token (ascii ''r1''))) = 200"
  using forum_top1 forum_reply1
  by (simp_all add: comment_delete_def requireCommentAuthor_def carol_token_def respond_def)

theorem delete_removes_thread_witness:
  "length (replies forum (ascii ''c1'')) = 2
   \<and> length (comments forum)
       = length (comments (snd (comment_delete forum carol_token (ascii ''c1'')))) + (2 + 1)
   \<and> comments (snd (comment_delete forum carol_token (ascii ''c1''))) = []
   \<and> length (comments forum)
       = length (comments (snd (comment_delete forum carol_token (ascii ''r1'')))) + 1
   \<and> comments (snd (comment_delete forum carol_token (ascii ''r1''))) = [top1, reply2]"
proof -
  have n: "length (replies forum (ascii ''c1'')) = 2"
    by (simp add: replies_def forum_def top1_def reply1_def reply2_def)
  have t: "parentId top1 = None" by (simp add: top1_def)
  have r: "parentId reply1 \<noteq> None" by (simp add: reply1_def)
  have f1: "filter (\<lambda>d. comment_id d \<noteq> ascii ''c1'' \<and> parentId d \<noteq> Some (ascii ''c1''))
              (comments forum) = []"
    by (simp add: forum_def top1_def reply1_def reply2_def)
  have f2: "filter (\<lambda>d. comment_id d \<noteq> ascii ''r1'') (comments forum) = [top1, reply2]"
    by (simp add: forum_def top1_def reply1_def reply2_def ascii_def)
  show ?thesis
    using delete_removes_thread [OF forum_threaded forum_top1 prod.collapse [symmetric]
        forum_delete_status(1)]
      delete_removes_thread [OF forum_threaded forum_reply1 prod.collapse [symmetric]
        forum_delete_status(2)]
      n t r f1 f2
    by simp
qed

end
